theory Spec2Isabelle
  imports Complex_Main
begin

section \<open>The layout engine of the window tiler (App.tsx)\<close>

text \<open>
  The window-tiling demo keeps a binary tree of splits and leaves, resolves pixel
  bounds for every node, hit-tests the pointer against the tree to propose a snap
  preview, and inserts or removes windows. This theory embeds those functions of
  \<^verbatim>\<open>src/window-tiler-challenge-starter-code/src/App.tsx\<close> and settles the
  properties stated about them.

  Numbers. Viewport sizes and pointer coordinates are integer pixels and are modelled as
  \<open>int\<close>. A split's ratio is a rational number; the product \<open>width * ratio\<close> is
  taken exactly. The only ratio the code ever writes is \<open>0.5\<close>, for which the
  floating-point product of the source is exact as well.
\<close>

subsection \<open>Data model\<close>

type_synonym NodeId = string

datatype orientation = Vertical | Horizontal

datatype side = SLeft | SRight | STop | SBottom

text \<open>
  \<^verbatim>\<open>LayoutLeaf\<close> and \<^verbatim>\<open>LayoutSplit\<close>. The interface declares both children of a
  split as nodes, but the types are erased at run time: every function below takes
  \<^verbatim>\<open>LayoutNode | null\<close>, tests \<^verbatim>\<open>!node\<close> first, and builds splits through casts
  (\<^verbatim>\<open>as LayoutSplit\<close>) from values that may be null. A child is therefore an option
  here, and that it is never absent is a property to be proved, not assumed.
\<close>

datatype LayoutNode =
    Leaf NodeId "int option"
  | Split NodeId orientation rat "LayoutNode option" "LayoutNode option"

record Bounds =
  b_x :: int
  b_y :: int
  b_width :: int
  b_height :: int

record SnapPreview =
  s_x :: int
  s_y :: int
  s_width :: int
  s_height :: int
  s_targetNodeId :: "NodeId option"
  s_side :: side

datatype error = TypeError

fun nodeId :: "LayoutNode \<Rightarrow> NodeId" where
  "nodeId (Leaf i w) = i"
| "nodeId (Split i ori r a b) = i"

subsection \<open>Identifiers\<close>

text \<open>
  \<^verbatim>\<open>makeId(prefix)\<close> returns the prefix, an underscore, and a suffix made of the clock
  and a random number. The suffix of the \<open>k\<close>-th call is \<open>g k\<close> for an arbitrary
  \<open>g\<close>; the counter \<open>k\<close> is threaded through every function that generates ids.
  Nothing is assumed about \<open>g\<close>: two calls may return the same suffix.
\<close>

type_synonym idgen = "nat \<Rightarrow> string"

definition makeId :: "idgen \<Rightarrow> string \<Rightarrow> nat \<Rightarrow> NodeId \<times> nat" where
  "makeId g prefix k = (prefix @ ''_'' @ g k, Suc k)"

definition SNAP_DISTANCE :: int where
  "SNAP_DISTANCE = 50"

definition defaultLeaf :: "idgen \<Rightarrow> nat \<Rightarrow> LayoutNode \<times> nat" where
  "defaultLeaf g k = (let (i, k1) = makeId g ''leaf'' k in (Leaf i None, k1))"

text \<open>
  \<^verbatim>\<open>deepClone\<close> is a JSON round trip. A layout node holds strings, numbers, null and
  nested nodes only, so the copy is structurally the node itself.
\<close>

definition deepClone :: "LayoutNode \<Rightarrow> LayoutNode" where
  "deepClone v = v"

definition math_floor :: "rat \<Rightarrow> int" where
  "math_floor v = \<lfloor>v\<rfloor>"

text \<open>\<^verbatim>\<open>Math.round\<close> rounds to the nearest integer, a half towards plus infinity.\<close>

definition math_round :: "rat \<Rightarrow> int" where
  "math_round v = \<lfloor>v + 1 / 2\<rfloor>"

subsection \<open>Bounds resolver\<close>

definition mkBounds :: "int \<Rightarrow> int \<Rightarrow> int \<Rightarrow> int \<Rightarrow> Bounds" where
  "mkBounds x y w h = \<lparr>b_x = x, b_y = y, b_width = w, b_height = h\<rparr>"

text \<open>
  \<^verbatim>\<open>computeBounds\<close> writes into a \<^verbatim>\<open>Map\<close> that the caller passes; the model takes
  the map and returns it updated. A later \<^verbatim>\<open>map.set\<close> of the same id overwrites.
\<close>

function computeBounds ::
  "LayoutNode option \<Rightarrow> int \<Rightarrow> int \<Rightarrow> int \<Rightarrow> int \<Rightarrow> (NodeId \<rightharpoonup> Bounds) \<Rightarrow> (NodeId \<rightharpoonup> Bounds)"
where
  "computeBounds None x y width height m = m"
| "computeBounds (Some (Leaf i w)) x y width height m = m(i \<mapsto> mkBounds x y width height)"
| "computeBounds (Some (Split i Vertical ratio first second)) x y width height m =
     (let m0 = m(i \<mapsto> mkBounds x y width height);
          firstW = math_floor (of_int width * ratio);
          secondW = width - firstW;
          m1 = computeBounds first x y firstW height m0
      in computeBounds second (x + firstW) y secondW height m1)"
| "computeBounds (Some (Split i Horizontal ratio first second)) x y width height m =
     (let m0 = m(i \<mapsto> mkBounds x y width height);
          firstH = math_floor (of_int height * ratio);
          secondH = height - firstH;
          m1 = computeBounds first x y width firstH m0
      in computeBounds second x (y + firstH) width secondH m1)"
  by pat_completeness auto
termination
  by (relation "measure (\<lambda>(n, x, y, w, h, m). size_option size n)") auto

subsection \<open>Hit tester\<close>

function findDeepestNodeAtPoint ::
  "LayoutNode option \<Rightarrow> int \<Rightarrow> int \<Rightarrow> int \<Rightarrow> int \<Rightarrow> int \<Rightarrow> int \<Rightarrow> LayoutNode option"
where
  "findDeepestNodeAtPoint None x y width height px py = None"
| "findDeepestNodeAtPoint (Some (Leaf i w)) x y width height px py =
     (if px < x \<or> px > x + width \<or> py < y \<or> py > y + height then None
      else Some (Leaf i w))"
| "findDeepestNodeAtPoint (Some (Split i Vertical ratio first second)) x y width height px py =
     (if px < x \<or> px > x + width \<or> py < y \<or> py > y + height then None
      else
        let firstW = math_floor (of_int width * ratio);
            childA = findDeepestNodeAtPoint first x y firstW height px py
        in if childA \<noteq> None then childA
           else findDeepestNodeAtPoint second (x + firstW) y (width - firstW) height px py)"
| "findDeepestNodeAtPoint (Some (Split i Horizontal ratio first second)) x y width height px py =
     (if px < x \<or> px > x + width \<or> py < y \<or> py > y + height then None
      else
        let firstH = math_floor (of_int height * ratio);
            childA = findDeepestNodeAtPoint first x y width firstH px py
        in if childA \<noteq> None then childA
           else findDeepestNodeAtPoint second x (y + firstH) width (height - firstH) px py)"
  by pat_completeness auto
termination
  by (relation "measure (\<lambda>(n, x, y, w, h, px, py). size_option size n)") auto

subsection \<open>Snap resolver\<close>

definition mkPreview :: "int \<Rightarrow> int \<Rightarrow> int \<Rightarrow> int \<Rightarrow> NodeId option \<Rightarrow> side \<Rightarrow> SnapPreview" where
  "mkPreview x y w h t sd =
     \<lparr>s_x = x, s_y = y, s_width = w, s_height = h, s_targetNodeId = t, s_side = sd\<rparr>"

text \<open>
  \<^verbatim>\<open>hitTestForPreview\<close> reads the root and the viewport from the component's state;
  they are parameters here. \<^verbatim>\<open>map.get(targetNode.id)!\<close> followed by \<^verbatim>\<open>b.x\<close> throws a
  TypeError when the id is not in the map: that is the \<open>Inl\<close> branch.
\<close>

definition hitTestForPreview ::
  "LayoutNode option \<Rightarrow> int \<Rightarrow> int \<Rightarrow> int \<Rightarrow> int \<Rightarrow> error + SnapPreview option"
where
  "hitTestForPreview rootNode vw vh px py =
     (let m = (if rootNode \<noteq> None then computeBounds rootNode 0 0 vw vh Map.empty else Map.empty);
          targetNode = (if rootNode \<noteq> None then findDeepestNodeAtPoint rootNode 0 0 vw vh px py
                        else None)
      in case targetNode of
           Some t \<Rightarrow>
             (case m (nodeId t) of
                None \<Rightarrow> Inl TypeError
              | Some b \<Rightarrow>
                  let distLeft = px - b_x b;
                      distRight = b_x b + b_width b - px;
                      distTop = py - b_y b;
                      distBottom = b_y b + b_height b - py;
                      minD = min distLeft (min distRight (min distTop distBottom))
                  in if minD > SNAP_DISTANCE then Inr None
                     else if minD = distLeft then
                       Inr (Some (mkPreview (b_x b) (b_y b)
                                   (math_round (of_int (b_width b) / 2)) (b_height b)
                                   (Some (nodeId t)) SLeft))
                     else if minD = distRight then
                       Inr (Some (mkPreview (b_x b + math_round (of_int (b_width b) / 2)) (b_y b)
                                   (math_round (of_int (b_width b) / 2)) (b_height b)
                                   (Some (nodeId t)) SRight))
                     else if minD = distTop then
                       Inr (Some (mkPreview (b_x b) (b_y b)
                                   (b_width b) (math_round (of_int (b_height b) / 2))
                                   (Some (nodeId t)) STop))
                     else
                       Inr (Some (mkPreview (b_x b) (b_y b + math_round (of_int (b_height b) / 2))
                                   (b_width b) (math_round (of_int (b_height b) / 2))
                                   (Some (nodeId t)) SBottom)))
         | None \<Rightarrow>
             if px \<le> SNAP_DISTANCE then
               Inr (Some (mkPreview 0 0 (math_round (of_int vw / 2)) vh None SLeft))
             else if px \<ge> vw - SNAP_DISTANCE then
               Inr (Some (mkPreview (math_round (of_int vw / 2)) 0
                           (math_round (of_int vw / 2)) vh None SRight))
             else if py \<le> SNAP_DISTANCE then
               Inr (Some (mkPreview 0 0 vw (math_round (of_int vh / 2)) None STop))
             else if py \<ge> vh - SNAP_DISTANCE then
               Inr (Some (mkPreview 0 (math_round (of_int vh / 2))
                           vw (math_round (of_int vh / 2)) None SBottom))
             else Inr None)"

subsection \<open>Tree mutator: insert\<close>

definition orientationOf :: "side \<Rightarrow> orientation" where
  "orientationOf sd = (if sd = SLeft \<or> sd = SRight then Vertical else Horizontal)"

definition newFirstIsWindow :: "side \<Rightarrow> bool" where
  "newFirstIsWindow sd = (sd = SLeft \<or> sd = STop)"

text \<open>
  The block that both matching branches of \<^verbatim>\<open>replaceNode\<close> and the
  \<^verbatim>\<open>targetNodeId == null\<close> branch of \<^verbatim>\<open>insertIntoLayout\<close> repeat: a new leaf for
  the window (\<^verbatim>\<open>makeId("leaf")\<close>), a clone of the existing node, and a split of ratio
  \<open>0.5\<close> around the two (\<^verbatim>\<open>makeId("split")\<close>).
\<close>

definition wrapWithWindow ::
  "idgen \<Rightarrow> int \<Rightarrow> side \<Rightarrow> LayoutNode \<Rightarrow> nat \<Rightarrow> LayoutNode \<times> nat"
where
  "wrapWithWindow g windowId sd node k =
     (let (lid, k1) = makeId g ''leaf'' k;
          winLeaf = Leaf lid (Some windowId);
          existingClone = deepClone node;
          first = (if newFirstIsWindow sd then winLeaf else existingClone);
          second = (if newFirstIsWindow sd then existingClone else winLeaf);
          (sid, k2) = makeId g ''split'' k1
      in (Split sid (orientationOf sd) (1 / 2) (Some first) (Some second), k2))"

text \<open>
  \<^verbatim>\<open>replaceNode\<close>. The test \<^verbatim>\<open>replacedFirst === node.first\<close> compares references and
  only decides whether the old object is reused; the node returned has the same fields in
  both cases. \<^verbatim>\<open>replacedFirst ?? node.first\<close> keeps the old child when the replaced one
  is null.
\<close>

function replaceNode ::
  "idgen \<Rightarrow> int \<Rightarrow> side \<Rightarrow> NodeId \<Rightarrow> LayoutNode option \<Rightarrow> nat \<Rightarrow> LayoutNode option \<times> nat"
where
  "replaceNode g windowId sd targetId None k = (None, k)"
| "replaceNode g windowId sd targetId (Some (Leaf i w)) k =
     (if i = targetId then
        (if w = None then (Some (Leaf i (Some windowId)), k)
         else (let (n, k') = wrapWithWindow g windowId sd (Leaf i w) k in (Some n, k')))
      else (Some (Leaf i w), k))"
| "replaceNode g windowId sd targetId (Some (Split i ori ratio first second)) k =
     (if i = targetId then
        (let (n, k') = wrapWithWindow g windowId sd (Split i ori ratio first second) k
         in (Some n, k'))
      else
        (let (replacedFirst, k1) = replaceNode g windowId sd targetId first k;
             (replacedSecond, k2) = replaceNode g windowId sd targetId second k1
         in (Some (Split i ori ratio
                    (case replacedFirst of None \<Rightarrow> first | Some f \<Rightarrow> Some f)
                    (case replacedSecond of None \<Rightarrow> second | Some s \<Rightarrow> Some s)), k2)))"
  by pat_completeness auto
termination
  by (relation "measure (\<lambda>(g, w, sd, t, n, k). size_option size n)") auto

text \<open>
  \<^verbatim>\<open>insertIntoLayout\<close> is the updater passed to \<^verbatim>\<open>setRootNode\<close>: from the previous
  root to the next one. (The second effect, marking the window as snapped in the list
  of windows, does not touch the tree.)
\<close>

definition insertIntoLayout ::
  "idgen \<Rightarrow> int \<Rightarrow> NodeId option \<Rightarrow> side \<Rightarrow> LayoutNode option \<Rightarrow> nat \<Rightarrow> LayoutNode option \<times> nat"
where
  "insertIntoLayout g windowId targetNodeId sd prev k =
     (case prev of
        None \<Rightarrow>
          (let (empty, k1) = defaultLeaf g k;
               (lid, k2) = makeId g ''leaf'' k1;
               winLeaf = Leaf lid (Some windowId);
               first = (if newFirstIsWindow sd then winLeaf else empty);
               second = (if newFirstIsWindow sd then empty else winLeaf);
               (sid, k3) = makeId g ''split'' k2
           in (Some (Split sid (orientationOf sd) (1 / 2) (Some first) (Some second)), k3))
      | Some p \<Rightarrow>
          (case targetNodeId of
             None \<Rightarrow> (let (n, k') = wrapWithWindow g windowId sd p k in (Some n, k'))
           | Some targetId \<Rightarrow>
               (let (newRoot, k') = replaceNode g windowId sd targetId prev k
                in (case newRoot of None \<Rightarrow> prev | Some r \<Rightarrow> Some r, k'))))"

subsection \<open>Tree mutator: remove\<close>

function remove :: "int \<Rightarrow> LayoutNode option \<Rightarrow> LayoutNode option" where
  "remove windowId None = None"
| "remove windowId (Some (Leaf i w)) =
     (if w = Some windowId then None else Some (Leaf i w))"
| "remove windowId (Some (Split i ori ratio first second)) =
     (let f = remove windowId first;
          s = remove windowId second
      in if f = None \<and> s = None then None
         else if f = None \<and> s \<noteq> None then s
         else if s = None \<and> f \<noteq> None then f
         else Some (Split i ori ratio f s))"
  by pat_completeness auto
termination
  by (relation "measure (\<lambda>(w, n). size_option size n)") auto

definition removeWindowFromLayout :: "int \<Rightarrow> LayoutNode option \<Rightarrow> LayoutNode option" where
  "removeWindowFromLayout windowId prev = remove windowId prev"

section \<open>Vocabulary of the properties\<close>

text \<open>
  The functions below are not in the source. They name what the properties talk about:
  the leaves and occupants of a tree, its shape, the node at a path, the pixels of a
  rectangle. All of them are defined on the root as the code holds it, a node or null.
\<close>

subsection \<open>Leaves, occupants, well-formedness\<close>

text \<open>The leaves from left to right, each with its id and its occupant.\<close>

function leaves :: "LayoutNode option \<Rightarrow> (NodeId \<times> int option) list" where
  "leaves None = []"
| "leaves (Some (Leaf i w)) = [(i, w)]"
| "leaves (Some (Split i ori r a b)) = leaves a @ leaves b"
  by pat_completeness auto
termination
  by (relation "measure (size_option size)") auto

text \<open>The window ids held by the leaves of a tree.\<close>

definition occupants :: "LayoutNode option \<Rightarrow> int list" where
  "occupants t = List.map_filter snd (leaves t)"

text \<open>The ids of the leaves without an occupant.\<close>

definition emptyLeafIds :: "LayoutNode option \<Rightarrow> NodeId list" where
  "emptyLeafIds t = map fst (filter (\<lambda>l. snd l = None) (leaves t))"

text \<open>
  Every split has two children, neither of them null. The root itself may be null.
\<close>

function strictlyBinary :: "LayoutNode option \<Rightarrow> bool" where
  "strictlyBinary None = True"
| "strictlyBinary (Some (Leaf i w)) = True"
| "strictlyBinary (Some (Split i ori r a b)) =
     (a \<noteq> None \<and> b \<noteq> None \<and> strictlyBinary a \<and> strictlyBinary b)"
  by pat_completeness auto
termination
  by (relation "measure (size_option size)") auto

text \<open>Every ratio lies strictly between 0 and 1; every ratio is one half.\<close>

function ratiosOpen :: "LayoutNode option \<Rightarrow> bool" where
  "ratiosOpen None = True"
| "ratiosOpen (Some (Leaf i w)) = True"
| "ratiosOpen (Some (Split i ori r a b)) = (0 < r \<and> r < 1 \<and> ratiosOpen a \<and> ratiosOpen b)"
  by pat_completeness auto
termination
  by (relation "measure (size_option size)") auto

function ratiosHalf :: "LayoutNode option \<Rightarrow> bool" where
  "ratiosHalf None = True"
| "ratiosHalf (Some (Leaf i w)) = True"
| "ratiosHalf (Some (Split i ori r a b)) = (r = 1 / 2 \<and> ratiosHalf a \<and> ratiosHalf b)"
  by pat_completeness auto
termination
  by (relation "measure (size_option size)") auto

text \<open>One \<^verbatim>\<open>removeWindowFromLayout\<close> per window id, in the order of the list.\<close>

definition removeEvery :: "int list \<Rightarrow> LayoutNode option \<Rightarrow> LayoutNode option" where
  "removeEvery ws rootNode = fold removeWindowFromLayout ws rootNode"

text \<open>
  The tree with every node id blanked: two trees are structurally equivalent when these
  agree.
\<close>

function eraseIds :: "LayoutNode option \<Rightarrow> LayoutNode option" where
  "eraseIds None = None"
| "eraseIds (Some (Leaf i w)) = Some (Leaf [] w)"
| "eraseIds (Some (Split i ori r a b)) = Some (Split [] ori r (eraseIds a) (eraseIds b))"
  by pat_completeness auto
termination
  by (relation "measure (size_option size)") auto

text \<open>A concrete supply of id suffixes for the examples: \<open>a\<close>, \<open>aa\<close>, \<open>aaa\<close>, ...\<close>

definition sampleIds :: idgen where
  "sampleIds k = replicate (Suc k) CHR ''a''"

subsection \<open>Reachable trees\<close>

text \<open>
  The trees the component can hold: the null root it starts with, and what an insert or a
  remove makes of a reachable tree, for any window id, target, side and id supply.
\<close>

inductive reachable :: "LayoutNode option \<Rightarrow> bool" where
  init: "reachable None"
| ins: "reachable t \<Longrightarrow> reachable (fst (insertIntoLayout g windowId targetNodeId sd t k))"
| rem: "reachable t \<Longrightarrow> reachable (removeWindowFromLayout windowId t)"

subsection \<open>Node ids and paths\<close>

text \<open>The ids of all nodes, parents before children.\<close>

function nodeIds :: "LayoutNode option \<Rightarrow> NodeId list" where
  "nodeIds None = []"
| "nodeIds (Some (Leaf i w)) = [i]"
| "nodeIds (Some (Split i ori r a b)) = i # nodeIds a @ nodeIds b"
  by pat_completeness auto
termination
  by (relation "measure (size_option size)") auto

text \<open>
  A path from the root picks the first or the second child at each split.
  \<open>nodeAt\<close> reads the subtree at a path, \<open>putAt\<close> replaces it and leaves the rest
  of the tree as it is.
\<close>

datatype branch = First | Second

fun nodeAt :: "branch list \<Rightarrow> LayoutNode option \<Rightarrow> LayoutNode option" where
  "nodeAt [] t = t"
| "nodeAt (First # p) (Some (Split i ori r a b)) = nodeAt p a"
| "nodeAt (Second # p) (Some (Split i ori r a b)) = nodeAt p b"
| "nodeAt (d # p) t = None"

fun putAt :: "branch list \<Rightarrow> LayoutNode option \<Rightarrow> LayoutNode option \<Rightarrow> LayoutNode option" where
  "putAt [] new t = new"
| "putAt (First # p) new (Some (Split i ori r a b)) = Some (Split i ori r (putAt p new a) b)"
| "putAt (Second # p) new (Some (Split i ori r a b)) = Some (Split i ori r a (putAt p new b))"
| "putAt (d # p) new t = t"

subsection \<open>Rectangles\<close>

text \<open>
  The pixels of a rectangle, the left and top edges included, the right and bottom ones
  not.
\<close>

definition rectPoints :: "Bounds \<Rightarrow> (int \<times> int) set" where
  "rectPoints b =
     {(px, py). b_x b \<le> px \<and> px < b_x b + b_width b \<and> b_y b \<le> py \<and> py < b_y b + b_height b}"

text \<open>
  The two rectangles a split hands to its children, in the words of the design: the first
  child gets the floor of extent times ratio, the second the remainder, the second placed
  after the first; along x for a vertical split, along y for a horizontal one.
\<close>

definition childBounds :: "orientation \<Rightarrow> rat \<Rightarrow> Bounds \<Rightarrow> Bounds \<times> Bounds" where
  "childBounds ori r B =
     (case ori of
        Vertical \<Rightarrow>
          (mkBounds (b_x B) (b_y B) \<lfloor>of_int (b_width B) * r\<rfloor> (b_height B),
           mkBounds (b_x B + \<lfloor>of_int (b_width B) * r\<rfloor>) (b_y B)
             (b_width B - \<lfloor>of_int (b_width B) * r\<rfloor>) (b_height B))
      | Horizontal \<Rightarrow>
          (mkBounds (b_x B) (b_y B) (b_width B) \<lfloor>of_int (b_height B) * r\<rfloor>,
           mkBounds (b_x B) (b_y B + \<lfloor>of_int (b_height B) * r\<rfloor>)
             (b_width B) (b_height B - \<lfloor>of_int (b_height B) * r\<rfloor>)))"

text \<open>\<^verbatim>\<open>computeBounds\<close> and \<^verbatim>\<open>findDeepestNodeAtPoint\<close> with the rectangle passed as one value.\<close>

definition boundsCall :: "LayoutNode option \<Rightarrow> Bounds \<Rightarrow> (NodeId \<rightharpoonup> Bounds) \<Rightarrow> (NodeId \<rightharpoonup> Bounds)" where
  "boundsCall t B m = computeBounds t (b_x B) (b_y B) (b_width B) (b_height B) m"

text \<open>A rectangle of non-negative width and height.\<close>

definition nonneg :: "Bounds \<Rightarrow> bool" where
  "nonneg B = (0 \<le> b_width B \<and> 0 \<le> b_height B)"

definition hitCall :: "LayoutNode option \<Rightarrow> Bounds \<Rightarrow> int \<Rightarrow> int \<Rightarrow> LayoutNode option" where
  "hitCall t B px py = findDeepestNodeAtPoint t (b_x B) (b_y B) (b_width B) (b_height B) px py"

text \<open>The containment test of the hit tester: all four edges included.\<close>

definition inClosed :: "Bounds \<Rightarrow> int \<Rightarrow> int \<Rightarrow> bool" where
  "inClosed B px py =
     (b_x B \<le> px \<and> px \<le> b_x B + b_width B \<and> b_y B \<le> py \<and> py \<le> b_y B + b_height B)"

subsection \<open>Candidate edges of the snap resolver\<close>

text \<open>
  The rectangle whose four edges the snap resolver measures against: the resolved bounds
  of the leaf that is hit, or the viewport when no leaf is hit. \<open>minEdgeOffset\<close> is the
  least of the four inward offsets the code computes, \<open>minEdgeDistance\<close> the least of
  the four distances to the lines through the edges. The distance to an edge itself, a
  segment of its line, is at least the distance to the line.
\<close>

definition candidateEdges :: "LayoutNode option \<Rightarrow> int \<Rightarrow> int \<Rightarrow> int \<Rightarrow> int \<Rightarrow> Bounds option" where
  "candidateEdges rootNode vw vh px py =
     (case findDeepestNodeAtPoint rootNode 0 0 vw vh px py of
        Some t \<Rightarrow> computeBounds rootNode 0 0 vw vh Map.empty (nodeId t)
      | None \<Rightarrow> Some (mkBounds 0 0 vw vh))"

definition minEdgeOffset :: "Bounds \<Rightarrow> int \<Rightarrow> int \<Rightarrow> int" where
  "minEdgeOffset b px py =
     min (px - b_x b) (min (b_x b + b_width b - px) (min (py - b_y b) (b_y b + b_height b - py)))"

definition minEdgeDistance :: "Bounds \<Rightarrow> int \<Rightarrow> int \<Rightarrow> int" where
  "minEdgeDistance b px py =
     min \<bar>px - b_x b\<bar> (min \<bar>b_x b + b_width b - px\<bar>
       (min \<bar>py - b_y b\<bar> \<bar>b_y b + b_height b - py\<bar>))"

section \<open>Properties\<close>

subsection \<open>Remove\<close>

lemma leaves_remove:
  "leaves (remove w t) = filter (\<lambda>l. snd l \<noteq> Some w) (leaves t)"
  by (induction t rule: leaves.induct) (auto simp: Let_def)

lemma remove_None_iff: "strictlyBinary t \<Longrightarrow> (remove w t = None) = (leaves (remove w t) = [])"
  by (induction t rule: leaves.induct) (auto simp: Let_def leaves_remove)

lemma leaves_nonempty: "strictlyBinary t \<Longrightarrow> t \<noteq> None \<Longrightarrow> leaves t \<noteq> []"
  by (induction t rule: leaves.induct) auto

lemma remove_binary: "strictlyBinary t \<Longrightarrow> strictlyBinary (remove w t)"
  by (induction t rule: leaves.induct) (auto simp: Let_def)

lemma remove_ratios: "ratiosHalf t \<Longrightarrow> ratiosHalf (remove w t)"
  by (induction t rule: leaves.induct) (auto simp: Let_def)

lemma remove_absent:
  "strictlyBinary t \<Longrightarrow> w \<notin> set (occupants t) \<Longrightarrow> remove w t = t"
  by (induction t rule: leaves.induct) (auto simp: Let_def occupants_def map_filter_def)

subsection \<open>Insert keeps the tree well formed\<close>

lemma replaceNode_None_iff: "(fst (replaceNode g w sd tid t k) = None) = (t = None)"
  by (induction t rule: leaves.induct) (auto simp: Let_def split: prod.splits)

lemma replaceNode_keep:
  "(case fst (replaceNode g w sd tid t k) of None \<Rightarrow> t | Some f \<Rightarrow> Some f)
     = fst (replaceNode g w sd tid t k)"
  using replaceNode_None_iff [of g w sd tid t k] by (auto split: option.splits)

lemma wrap_binary:
  "strictlyBinary (Some n) \<Longrightarrow> strictlyBinary (Some (fst (wrapWithWindow g w sd n k)))"
  by (simp add: wrapWithWindow_def makeId_def deepClone_def Let_def)

lemma wrap_ratios:
  "ratiosHalf (Some n) \<Longrightarrow> ratiosHalf (Some (fst (wrapWithWindow g w sd n k)))"
  by (simp add: wrapWithWindow_def makeId_def deepClone_def Let_def)

lemma replaceNode_binary:
  "strictlyBinary t \<Longrightarrow> strictlyBinary (fst (replaceNode g w sd tid t k))"
proof (induction t arbitrary: k rule: leaves.induct)
  case 1
  then show ?case by simp
next
  case (2 i occ)
  then show ?case
    using wrap_binary [of "Leaf i occ" g w sd k]
    by (auto simp: Let_def split: prod.splits)
next
  case (3 i ori r a b)
  show ?case
  proof (cases "i = tid")
    case True
    then show ?thesis
      using wrap_binary [OF "3.prems", of g w sd k]
      by (auto simp: Let_def split: prod.splits)
  next
    case False
    obtain rf k1 where rf: "replaceNode g w sd tid a k = (rf, k1)" by fastforce
    obtain rs k2 where rs: "replaceNode g w sd tid b k1 = (rs, k2)" by fastforce
    have a: "a \<noteq> None" "b \<noteq> None" "strictlyBinary a" "strictlyBinary b"
      using "3.prems" by auto
    have "strictlyBinary rf" using "3.IH"(1) [OF a(3), of k] rf by simp
    moreover have "strictlyBinary rs" using "3.IH"(2) [OF a(4), of k1] rs by simp
    moreover have "rf \<noteq> None" using replaceNode_None_iff [of g w sd tid a k] rf a by simp
    moreover have "rs \<noteq> None" using replaceNode_None_iff [of g w sd tid b k1] rs a by simp
    ultimately show ?thesis using False rf rs by (auto simp: Let_def)
  qed
qed

lemma replaceNode_ratios:
  "ratiosHalf t \<Longrightarrow> ratiosHalf (fst (replaceNode g w sd tid t k))"
proof (induction t arbitrary: k rule: leaves.induct)
  case 1
  then show ?case by simp
next
  case (2 i occ)
  then show ?case
    using wrap_ratios [of "Leaf i occ" g w sd k]
    by (auto simp: Let_def split: prod.splits)
next
  case (3 i ori r a b)
  show ?case
  proof (cases "i = tid")
    case True
    then show ?thesis
      using wrap_ratios [OF "3.prems", of g w sd k]
      by (auto simp: Let_def split: prod.splits)
  next
    case False
    obtain rf k1 where rf: "replaceNode g w sd tid a k = (rf, k1)" by fastforce
    obtain rs k2 where rs: "replaceNode g w sd tid b k1 = (rs, k2)" by fastforce
    have a: "r = 1 / 2" "ratiosHalf a" "ratiosHalf b"
      using "3.prems" by auto
    have "ratiosHalf rf" using "3.IH"(1) [OF a(2), of k] rf by simp
    moreover have "ratiosHalf rs" using "3.IH"(2) [OF a(3), of k1] rs by simp
    moreover have "ratiosHalf a" "ratiosHalf b" using a by auto
    ultimately show ?thesis using False rf rs a(1) by (auto simp: Let_def split: option.splits)
  qed
qed

lemma insert_at_target:
  "insertIntoLayout g w (Some tid) sd (Some p) k = replaceNode g w sd tid (Some p) k"
proof -
  obtain r k' where r: "replaceNode g w sd tid (Some p) k = (r, k')" by fastforce
  then have "r \<noteq> None"
    using replaceNode_None_iff [of g w sd tid "Some p" k] by auto
  then show ?thesis using r by (auto simp: insertIntoLayout_def)
qed

lemma insert_at_edge:
  "insertIntoLayout g w None sd (Some p) k =
     (Some (fst (wrapWithWindow g w sd p k)), snd (wrapWithWindow g w sd p k))"
  by (simp add: insertIntoLayout_def case_prod_beta)

lemma insert_binary:
  "strictlyBinary t \<Longrightarrow> strictlyBinary (fst (insertIntoLayout g w tgt sd t k))"
proof (cases t)
  case None
  then show ?thesis
    by (simp add: insertIntoLayout_def defaultLeaf_def makeId_def Let_def)
next
  case (Some p)
  assume "strictlyBinary t"
  then show ?thesis
    unfolding Some
    by (cases tgt) (simp_all add: insert_at_target insert_at_edge wrap_binary replaceNode_binary)
qed

lemma insert_ratios:
  "ratiosHalf t \<Longrightarrow> ratiosHalf (fst (insertIntoLayout g w tgt sd t k))"
proof (cases t)
  case None
  then show ?thesis
    by (simp add: insertIntoLayout_def defaultLeaf_def makeId_def Let_def)
next
  case (Some p)
  assume "ratiosHalf t"
  then show ?thesis
    unfolding Some
    by (cases tgt) (simp_all add: insert_at_target insert_at_edge wrap_ratios replaceNode_ratios)
qed

lemma reachable_invariant: "reachable t \<Longrightarrow> strictlyBinary t \<and> ratiosHalf t"
proof (induction rule: reachable.induct)
  case init
  show ?case by simp
next
  case (ins t g windowId targetNodeId sd k)
  then show ?case by (simp add: insert_binary insert_ratios)
next
  case (rem t windowId)
  then show ?case by (simp add: removeWindowFromLayout_def remove_binary remove_ratios)
qed

lemma ratiosHalf_open: "ratiosHalf t \<Longrightarrow> ratiosOpen t"
  by (induction t rule: leaves.induct) auto

text \<open>
  Claim C9. Every tree reachable from the none root by inserts and removes, with any
  window ids, targets, sides and generated identifiers, is strictly binary: each split
  has two children, neither of them null. Every ratio in it is \<open>1 / 2\<close>, hence
  strictly between 0 and 1.
\<close>

theorem reachable_strictly_binary_open_ratio:
  "reachable t \<Longrightarrow> strictlyBinary t \<and> ratiosOpen t"
  using reachable_invariant [of t] ratiosHalf_open [of t] by simp

subsection \<open>Removing every occupant\<close>

lemma leaves_removeEvery:
  "leaves (removeEvery ws t) = filter (\<lambda>l. snd l \<notin> Some ` set ws) (leaves t)"
proof (induction ws arbitrary: t)
  case Nil
  show ?case by (simp add: removeEvery_def)
next
  case (Cons w ws)
  have "removeEvery (w # ws) t = removeEvery ws (remove w t)"
    by (simp add: removeEvery_def removeWindowFromLayout_def)
  then show ?case
    using Cons.IH [of "remove w t"] by (auto simp: leaves_remove intro: filter_cong)
qed

lemma removeEvery_binary: "strictlyBinary t \<Longrightarrow> strictlyBinary (removeEvery ws t)"
proof (induction ws arbitrary: t)
  case Nil
  then show ?case by (simp add: removeEvery_def)
next
  case (Cons w ws)
  have "removeEvery (w # ws) t = removeEvery ws (remove w t)"
    by (simp add: removeEvery_def removeWindowFromLayout_def)
  then show ?case using Cons.IH [of "remove w t"] Cons.prems by (simp add: remove_binary)
qed

lemma leaves_empty_iff: "strictlyBinary t \<Longrightarrow> (leaves t = []) = (t = None)"
  by (cases "t = None") (simp_all add: leaves_nonempty)

lemma occupants_mem: "(w \<in> set (occupants t)) = (\<exists>i. (i, Some w) \<in> set (leaves t))"
  by (force simp: occupants_def map_filter_def)

text \<open>
  Claim C1, as the code has it. The first insert puts a placeholder leaf without an
  occupant beside the window (\<^verbatim>\<open>defaultLeaf\<close>), and \<^verbatim>\<open>remove\<close> deletes only a
  leaf whose \<^verbatim>\<open>windowId\<close> is the given one. Removing every occupant of a strictly
  binary tree therefore leaves exactly its unoccupied leaves, in order, and the root
  becomes none exactly when the tree had no unoccupied leaf.
\<close>

theorem remove_every_occupant:
  assumes "strictlyBinary t" and "set (occupants t) \<subseteq> set ws"
  shows "leaves (removeEvery ws t) = filter (\<lambda>l. snd l = None) (leaves t)
         \<and> ((removeEvery ws t = None) = (filter (\<lambda>l. snd l = None) (leaves t) = []))"
proof -
  have "\<And>l. l \<in> set (leaves t) \<Longrightarrow> (snd l \<notin> Some ` set ws) = (snd l = None)"
  proof -
    fix l assume l: "l \<in> set (leaves t)"
    obtain i occ where lo: "l = (i, occ)" by (cases l)
    show "(snd l \<notin> Some ` set ws) = (snd l = None)"
    proof (cases occ)
      case None
      then show ?thesis using lo by auto
    next
      case (Some w)
      then have "w \<in> set (occupants t)" using l lo occupants_mem by blast
      then show ?thesis using assms(2) lo Some by auto
    qed
  qed
  then have eq: "leaves (removeEvery ws t) = filter (\<lambda>l. snd l = None) (leaves t)"
    unfolding leaves_removeEvery by (auto intro: filter_cong)
  have "(removeEvery ws t = None) = (leaves (removeEvery ws t) = [])"
    using leaves_empty_iff [OF removeEvery_binary [OF assms(1)], of ws] by simp
  then show ?thesis using eq by simp
qed

theorem remove_every_occupant_witness:
  "strictlyBinary (Some (Split ''s'' Vertical (1 / 2) (Some (Leaf ''a'' (Some 1))) (Some (Leaf ''b'' None))))
   \<and> set (occupants (Some (Split ''s'' Vertical (1 / 2) (Some (Leaf ''a'' (Some 1))) (Some (Leaf ''b'' None))))) \<subseteq> set [1]
   \<and> leaves (removeEvery [1] (Some (Split ''s'' Vertical (1 / 2) (Some (Leaf ''a'' (Some 1))) (Some (Leaf ''b'' None))))) = [(''b'', None)]
   \<and> removeEvery [1] (Some (Split ''s'' Vertical (1 / 2) (Some (Leaf ''a'' (Some 1))) (Some (Leaf ''b'' None)))) \<noteq> None"
  using remove_every_occupant [of "Some (Split ''s'' Vertical (1 / 2) (Some (Leaf ''a'' (Some 1))) (Some (Leaf ''b'' None)))" "[1]"]
  by (simp add: occupants_def map_filter_def)

lemma sample_first_insert:
  "insertIntoLayout sampleIds 1 None SLeft None 0 =
     (Some (Split ''split_aaa'' Vertical (1 / 2)
              (Some (Leaf ''leaf_aa'' (Some 1))) (Some (Leaf ''leaf_a'' None))), 3)"
  by (simp add: insertIntoLayout_def defaultLeaf_def makeId_def sampleIds_def
      newFirstIsWindow_def orientationOf_def numeral_3_eq_3)

theorem remove_every_occupant_counterexample:
  "reachable (fst (insertIntoLayout sampleIds 1 None SLeft None 0))
   \<and> occupants (fst (insertIntoLayout sampleIds 1 None SLeft None 0)) = [1]
   \<and> removeEvery [1] (fst (insertIntoLayout sampleIds 1 None SLeft None 0))
       = Some (Leaf ''leaf_a'' None)
   \<and> removeEvery [1] (fst (insertIntoLayout sampleIds 1 None SLeft None 0)) \<noteq> None"
  using reachable.ins [OF reachable.init, of sampleIds 1 None SLeft 0]
  by (simp add: sample_first_insert occupants_def map_filter_def removeEvery_def
      removeWindowFromLayout_def)

theorem reachable_strictly_binary_open_ratio_witness:
  "reachable (fst (insertIntoLayout sampleIds 1 None SLeft None 0))
   \<and> strictlyBinary (fst (insertIntoLayout sampleIds 1 None SLeft None 0))
   \<and> ratiosOpen (fst (insertIntoLayout sampleIds 1 None SLeft None 0))"
  using reachable_strictly_binary_open_ratio [of "fst (insertIntoLayout sampleIds 1 None SLeft None 0)"]
    reachable.ins [OF reachable.init, of sampleIds 1 None SLeft 0]
  by simp

text \<open>
  Claim C8. Remove deletes every leaf that holds the occupant and nothing else; a split
  is rebuilt from what its two children return: none when both are gone, the survivor
  when one is gone, the split over both results otherwise. A tree in which the occupant
  does not appear is returned unchanged.
\<close>

theorem remove_collapses_upward:
  "removeWindowFromLayout w (Some (Leaf i (Some w))) = None
   \<and> leaves (removeWindowFromLayout w t) = filter (\<lambda>l. snd l \<noteq> Some w) (leaves t)
   \<and> (removeWindowFromLayout w first = None \<and> removeWindowFromLayout w second = None
        \<longrightarrow> removeWindowFromLayout w (Some (Split i ori r first second)) = None)
   \<and> (removeWindowFromLayout w first = None \<and> removeWindowFromLayout w second \<noteq> None
        \<longrightarrow> removeWindowFromLayout w (Some (Split i ori r first second))
              = removeWindowFromLayout w second)
   \<and> (removeWindowFromLayout w first \<noteq> None \<and> removeWindowFromLayout w second = None
        \<longrightarrow> removeWindowFromLayout w (Some (Split i ori r first second))
              = removeWindowFromLayout w first)
   \<and> (removeWindowFromLayout w first \<noteq> None \<and> removeWindowFromLayout w second \<noteq> None
        \<longrightarrow> removeWindowFromLayout w (Some (Split i ori r first second))
              = Some (Split i ori r (removeWindowFromLayout w first)
                                    (removeWindowFromLayout w second)))
   \<and> (strictlyBinary t \<and> w \<notin> set (occupants t) \<longrightarrow> removeWindowFromLayout w t = t)"
  by (simp add: removeWindowFromLayout_def leaves_remove remove_absent Let_def)

theorem remove_collapses_upward_witness:
  "removeWindowFromLayout 1 (Some (Leaf ''a'' (Some 1))) = None
   \<and> removeWindowFromLayout 1 (Some (Leaf ''c'' (Some 1))) = None
   \<and> removeWindowFromLayout 1 (Some (Leaf ''b'' (Some 2))) \<noteq> None
   \<and> removeWindowFromLayout 1
       (Some (Split ''s'' Vertical (1 / 2) (Some (Leaf ''a'' (Some 1))) (Some (Leaf ''c'' (Some 1)))))
       = None
   \<and> removeWindowFromLayout 1
       (Some (Split ''s'' Vertical (1 / 2) (Some (Leaf ''a'' (Some 1))) (Some (Leaf ''b'' (Some 2)))))
       = Some (Leaf ''b'' (Some 2))
   \<and> removeWindowFromLayout 1
       (Some (Split ''s'' Vertical (1 / 2) (Some (Leaf ''b'' (Some 2))) (Some (Leaf ''a'' (Some 1)))))
       = Some (Leaf ''b'' (Some 2))
   \<and> strictlyBinary
       (Some (Split ''s'' Vertical (1 / 2) (Some (Leaf ''b'' (Some 2))) (Some (Leaf ''d'' None))))
   \<and> 1 \<notin> set (occupants
       (Some (Split ''s'' Vertical (1 / 2) (Some (Leaf ''b'' (Some 2))) (Some (Leaf ''d'' None)))))
   \<and> removeWindowFromLayout 1
       (Some (Split ''s'' Vertical (1 / 2) (Some (Leaf ''b'' (Some 2))) (Some (Leaf ''d'' None))))
       = Some (Split ''s'' Vertical (1 / 2) (Some (Leaf ''b'' (Some 2))) (Some (Leaf ''d'' None)))"
  using
    remove_collapses_upward [of 1 "''a''"
      "Some (Split ''s'' Vertical (1 / 2) (Some (Leaf ''b'' (Some 2))) (Some (Leaf ''d'' None)))"
      "Some (Leaf ''a'' (Some 1))" "Some (Leaf ''c'' (Some 1))" Vertical "1 / 2"]
    remove_collapses_upward [of 1 "''c''"
      "Some (Split ''s'' Vertical (1 / 2) (Some (Leaf ''b'' (Some 2))) (Some (Leaf ''d'' None)))"
      "Some (Leaf ''a'' (Some 1))" "Some (Leaf ''b'' (Some 2))" Vertical "1 / 2"]
    remove_collapses_upward [of 1 "''s''"
      "Some (Split ''s'' Vertical (1 / 2) (Some (Leaf ''b'' (Some 2))) (Some (Leaf ''d'' None)))"
      "Some (Leaf ''b'' (Some 2))" "Some (Leaf ''a'' (Some 1))" Vertical "1 / 2"]
    remove_collapses_upward [of 1 "''s''"
      "Some (Split ''s'' Vertical (1 / 2) (Some (Leaf ''b'' (Some 2))) (Some (Leaf ''d'' None)))"
      "Some (Leaf ''b'' (Some 2))" "Some (Leaf ''d'' None)" Vertical "1 / 2"]
  by (simp add: removeWindowFromLayout_def occupants_def map_filter_def)

subsection \<open>Insert followed by remove\<close>

lemma wrap_then_remove:
  "strictlyBinary (Some n) \<Longrightarrow> w \<notin> set (occupants (Some n)) \<Longrightarrow>
   remove w (Some (fst (wrapWithWindow g w sd n k))) = Some n"
  using remove_absent [of "Some n" w]
  by (simp add: wrapWithWindow_def makeId_def deepClone_def Let_def)

lemma replace_then_remove:
  "strictlyBinary t \<Longrightarrow> w \<notin> set (occupants t) \<Longrightarrow> tid \<notin> set (emptyLeafIds t) \<Longrightarrow>
   remove w (fst (replaceNode g w sd tid t k)) = t"
proof (induction t arbitrary: k rule: leaves.induct)
  case 1
  show ?case by simp
next
  case (2 i occ)
  show ?case
  proof (cases "i = tid")
    case True
    then have "occ \<noteq> None" using "2.prems"(3) by (cases occ) (simp_all add: emptyLeafIds_def)
    then show ?thesis
      using True wrap_then_remove [OF "2.prems"(1) "2.prems"(2), of g sd k]
      by (simp add: case_prod_beta)
  next
    case False
    then show ?thesis using "2.prems"(2) by (auto simp: occupants_mem)
  qed
next
  case (3 i ori r a b)
  show ?case
  proof (cases "i = tid")
    case True
    then show ?thesis
      using wrap_then_remove [OF "3.prems"(1) "3.prems"(2), of g sd k]
      by (simp add: case_prod_beta)
  next
    case False
    have ab: "a \<noteq> None" "b \<noteq> None" "strictlyBinary a" "strictlyBinary b"
      using "3.prems"(1) by auto
    have wa: "w \<notin> set (occupants a)" and wb: "w \<notin> set (occupants b)"
      using "3.prems"(2) by (auto simp: occupants_mem)
    have ta: "tid \<notin> set (emptyLeafIds a)" and tb: "tid \<notin> set (emptyLeafIds b)"
      using "3.prems"(3) by (auto simp: emptyLeafIds_def)
    have ra: "remove w (fst (replaceNode g w sd tid a k)) = a"
      by (rule "3.IH"(1) [OF ab(3) wa ta])
    have rb: "remove w (fst (replaceNode g w sd tid b (snd (replaceNode g w sd tid a k)))) = b"
      by (rule "3.IH"(2) [OF ab(4) wb tb])
    obtain a' b' where a': "a = Some a'" and b': "b = Some b'" using ab(1,2) by auto
    show ?thesis
      using False ra rb unfolding a' b'
      by (simp add: case_prod_beta replaceNode_keep Let_def)
  qed
qed

text \<open>
  Claim C2, as the code has it. On a tree that exists, with the target none or any id
  that does not name an unoccupied leaf, insert followed by remove of the same occupant
  gives back the tree itself, identifiers included. The two excluded cases differ by
  design: the first insert adds a placeholder leaf that remove keeps, and an insert into
  an unoccupied leaf fills it without a new split, so that remove deletes the leaf.
\<close>

theorem insert_then_remove:
  assumes "strictlyBinary (Some p)"
    and "w \<notin> set (occupants (Some p))"
    and "target \<notin> Some ` set (emptyLeafIds (Some p))"
  shows "removeWindowFromLayout w (fst (insertIntoLayout g w target sd (Some p) k)) = Some p
         \<and> eraseIds (removeWindowFromLayout w (fst (insertIntoLayout g w target sd (Some p) k)))
             = eraseIds (Some p)"
proof -
  have "removeWindowFromLayout w (fst (insertIntoLayout g w target sd (Some p) k)) = Some p"
  proof (cases target)
    case None
    then show ?thesis
      using wrap_then_remove [OF assms(1) assms(2), of g sd k]
      by (simp add: insert_at_edge removeWindowFromLayout_def)
  next
    case (Some tid)
    then have "tid \<notin> set (emptyLeafIds (Some p))" using assms(3) by auto
    then show ?thesis
      using replace_then_remove [OF assms(1) assms(2), of tid g sd k] Some
      by (simp add: insert_at_target removeWindowFromLayout_def)
  qed
  then show ?thesis by simp
qed

theorem insert_then_remove_witness:
  "strictlyBinary (Some (Split ''s'' Vertical (1 / 2) (Some (Leaf ''a'' (Some 1))) (Some (Leaf ''b'' None))))
   \<and> 2 \<notin> set (occupants (Some (Split ''s'' Vertical (1 / 2) (Some (Leaf ''a'' (Some 1))) (Some (Leaf ''b'' None)))))
   \<and> Some ''a'' \<notin> Some ` set (emptyLeafIds (Some (Split ''s'' Vertical (1 / 2) (Some (Leaf ''a'' (Some 1))) (Some (Leaf ''b'' None)))))
   \<and> removeWindowFromLayout 2 (fst (insertIntoLayout sampleIds 2 (Some ''a'') SBottom
        (Some (Split ''s'' Vertical (1 / 2) (Some (Leaf ''a'' (Some 1))) (Some (Leaf ''b'' None)))) 0))
      = Some (Split ''s'' Vertical (1 / 2) (Some (Leaf ''a'' (Some 1))) (Some (Leaf ''b'' None)))"
  using insert_then_remove [of "Split ''s'' Vertical (1 / 2) (Some (Leaf ''a'' (Some 1))) (Some (Leaf ''b'' None))"
      2 "Some ''a''" sampleIds SBottom 0]
  by (simp add: occupants_def map_filter_def emptyLeafIds_def)

theorem insert_then_remove_counterexample:
  "eraseIds (removeWindowFromLayout 1 (fst (insertIntoLayout sampleIds 1 None SLeft None 0)))
     = Some (Leaf [] None)
   \<and> eraseIds (removeWindowFromLayout 1 (fst (insertIntoLayout sampleIds 1 None SLeft None 0)))
     \<noteq> eraseIds None
   \<and> 2 \<notin> set (occupants (Some (Split ''s'' Vertical (1 / 2) (Some (Leaf ''a'' (Some 1))) (Some (Leaf ''b'' None)))))
   \<and> eraseIds (removeWindowFromLayout 2 (fst (insertIntoLayout sampleIds 2 (Some ''b'') SLeft
        (Some (Split ''s'' Vertical (1 / 2) (Some (Leaf ''a'' (Some 1))) (Some (Leaf ''b'' None)))) 0)))
     = Some (Leaf [] (Some 1))
   \<and> eraseIds (removeWindowFromLayout 2 (fst (insertIntoLayout sampleIds 2 (Some ''b'') SLeft
        (Some (Split ''s'' Vertical (1 / 2) (Some (Leaf ''a'' (Some 1))) (Some (Leaf ''b'' None)))) 0)))
     \<noteq> eraseIds (Some (Split ''s'' Vertical (1 / 2) (Some (Leaf ''a'' (Some 1))) (Some (Leaf ''b'' None))))"
  by (simp add: sample_first_insert insert_at_target removeWindowFromLayout_def
      occupants_def map_filter_def)

subsection \<open>Insert at a target node\<close>

lemma replaceNode_absent:
  "tid \<notin> set (nodeIds t) \<Longrightarrow> replaceNode g w sd tid t k = (t, k)"
  by (induction t arbitrary: k rule: leaves.induct) (auto split: option.splits)

lemma nodeAt_id_mem: "nodeAt p t = Some n \<Longrightarrow> nodeId n \<in> set (nodeIds t)"
proof (induction p t rule: nodeAt.induct)
  case (1 t)
  then show ?case by (cases n) auto
qed auto

lemma replaceNode_at:
  "nodeAt p t = Some n \<Longrightarrow> nodeId n = tid \<Longrightarrow> count_list (nodeIds t) tid = 1 \<Longrightarrow>
   replaceNode g w sd tid t k =
     (putAt p (fst (replaceNode g w sd tid (Some n) k)) t,
      snd (replaceNode g w sd tid (Some n) k))"
proof (induction p t arbitrary: k rule: nodeAt.induct)
  case (1 t)
  then show ?case by simp
next
  case (2 p i ori r a b)
  have na: "nodeAt p a = Some n" using "2.prems"(1) by simp
  then have mem: "tid \<in> set (nodeIds a)" using nodeAt_id_mem "2.prems"(2) by blast
  then have pos: "0 < count_list (nodeIds a) tid"
    using count_list_0_iff [of "nodeIds a" tid] by simp
  have ne: "i \<noteq> tid" using "2.prems"(3) pos by (auto split: if_splits)
  have ca: "count_list (nodeIds a) tid = 1" and cb: "count_list (nodeIds b) tid = 0"
    using "2.prems"(3) pos ne by auto
  have b: "replaceNode g w sd tid b k' = (b, k')" for k'
    using cb by (simp add: replaceNode_absent count_list_0_iff)
  have a: "replaceNode g w sd tid a k =
     (putAt p (fst (replaceNode g w sd tid (Some n) k)) a,
      snd (replaceNode g w sd tid (Some n) k))"
    by (rule "2.IH" [OF na "2.prems"(2) ca])
  have keep: "(case fst (replaceNode g w sd tid a k) of None \<Rightarrow> a | Some f \<Rightarrow> Some f)
     = fst (replaceNode g w sd tid a k)"
    by (rule replaceNode_keep)
  show ?case using ne a b keep by (auto simp: Let_def split: option.splits)
next
  case (3 p i ori r a b)
  have nb: "nodeAt p b = Some n" using "3.prems"(1) by simp
  then have mem: "tid \<in> set (nodeIds b)" using nodeAt_id_mem "3.prems"(2) by blast
  then have pos: "0 < count_list (nodeIds b) tid"
    using count_list_0_iff [of "nodeIds b" tid] by simp
  have ne: "i \<noteq> tid" using "3.prems"(3) pos by (auto split: if_splits)
  have cb: "count_list (nodeIds b) tid = 1" and ca: "count_list (nodeIds a) tid = 0"
    using "3.prems"(3) pos ne by auto
  have a: "replaceNode g w sd tid a k = (a, k)"
    using ca by (simp add: replaceNode_absent count_list_0_iff)
  have b: "replaceNode g w sd tid b k =
     (putAt p (fst (replaceNode g w sd tid (Some n) k)) b,
      snd (replaceNode g w sd tid (Some n) k))"
    by (rule "3.IH" [OF nb "3.prems"(2) cb])
  have keep: "(case fst (replaceNode g w sd tid b k) of None \<Rightarrow> b | Some f \<Rightarrow> Some f)
     = fst (replaceNode g w sd tid b k)"
    by (rule replaceNode_keep)
  show ?case using ne a b keep by (auto simp: Let_def split: option.splits)
qed simp_all

lemma insert_at_node:
  assumes "nodeAt p t = Some n" and "nodeId n = tid" and "count_list (nodeIds t) tid = 1"
  shows "insertIntoLayout g w (Some tid) sd t k =
     (putAt p (fst (replaceNode g w sd tid (Some n) k)) t,
      snd (replaceNode g w sd tid (Some n) k))"
proof -
  obtain rt where rt: "t = Some rt" using assms(1) by (cases t; cases p) auto
  show ?thesis
    unfolding rt insert_at_target
    using replaceNode_at [OF assms, of g w sd k] rt by simp
qed


lemma wrap_value:
  "wrapWithWindow g w sd n k =
     (Split (''split_'' @ g (Suc k))
        (if sd = SLeft \<or> sd = SRight then Vertical else Horizontal) (1 / 2)
        (Some (if sd = SLeft \<or> sd = STop then Leaf (''leaf_'' @ g k) (Some w) else n))
        (Some (if sd = SLeft \<or> sd = STop then n else Leaf (''leaf_'' @ g k) (Some w))),
      Suc (Suc k))"
  by (simp add: wrapWithWindow_def makeId_def deepClone_def orientationOf_def
      newFirstIsWindow_def)

text \<open>
  Claim C7. The target id names exactly one node of the tree, the leaf at path \<open>p\<close>.
  If the leaf is unoccupied, insert returns the tree with that leaf holding the window and
  generates no identifier. If it is occupied, the leaf is replaced by a split of ratio
  \<open>1 / 2\<close>, vertical for left and right, horizontal for top and bottom, whose children are
  the old leaf and a new leaf holding the window, the new leaf first for left and top.
\<close>

theorem insert_at_leaf:
  assumes "nodeAt p t = Some (Leaf tid occ)" and "count_list (nodeIds t) tid = 1"
  shows "(occ = None \<longrightarrow>
            insertIntoLayout g w (Some tid) sd t k = (putAt p (Some (Leaf tid (Some w))) t, k))
       \<and> (occ \<noteq> None \<longrightarrow>
            insertIntoLayout g w (Some tid) sd t k =
              (putAt p
                 (Some (Split (''split_'' @ g (Suc k))
                    (if sd = SLeft \<or> sd = SRight then Vertical else Horizontal) (1 / 2)
                    (Some (if sd = SLeft \<or> sd = STop then Leaf (''leaf_'' @ g k) (Some w)
                           else Leaf tid occ))
                    (Some (if sd = SLeft \<or> sd = STop then Leaf tid occ
                           else Leaf (''leaf_'' @ g k) (Some w))))) t,
               Suc (Suc k)))"
  using insert_at_node [OF assms(1) _ assms(2), of g w sd k]
  by (simp add: wrap_value)

theorem insert_at_leaf_witness:
  "nodeAt [Second]
      (Some (Split ''s'' Vertical (1 / 2) (Some (Leaf ''a'' (Some 1))) (Some (Leaf ''b'' None))))
     = Some (Leaf ''b'' None)
   \<and> count_list (nodeIds
      (Some (Split ''s'' Vertical (1 / 2) (Some (Leaf ''a'' (Some 1))) (Some (Leaf ''b'' None))))) ''b'' = 1
   \<and> insertIntoLayout sampleIds 2 (Some ''b'') STop
      (Some (Split ''s'' Vertical (1 / 2) (Some (Leaf ''a'' (Some 1))) (Some (Leaf ''b'' None)))) 0
     = (Some (Split ''s'' Vertical (1 / 2) (Some (Leaf ''a'' (Some 1))) (Some (Leaf ''b'' (Some 2)))), 0)
   \<and> nodeAt [First]
      (Some (Split ''s'' Vertical (1 / 2) (Some (Leaf ''a'' (Some 1))) (Some (Leaf ''b'' None))))
     = Some (Leaf ''a'' (Some 1))
   \<and> count_list (nodeIds
      (Some (Split ''s'' Vertical (1 / 2) (Some (Leaf ''a'' (Some 1))) (Some (Leaf ''b'' None))))) ''a'' = 1
   \<and> insertIntoLayout sampleIds 2 (Some ''a'') SBottom
      (Some (Split ''s'' Vertical (1 / 2) (Some (Leaf ''a'' (Some 1))) (Some (Leaf ''b'' None)))) 0
     = (Some (Split ''s'' Vertical (1 / 2)
          (Some (Split ''split_aa'' Horizontal (1 / 2)
             (Some (Leaf ''a'' (Some 1))) (Some (Leaf ''leaf_a'' (Some 2)))))
          (Some (Leaf ''b'' None))), 2)"
  using
    insert_at_leaf [of "[Second]"
      "Some (Split ''s'' Vertical (1 / 2) (Some (Leaf ''a'' (Some 1))) (Some (Leaf ''b'' None)))"
      "''b''" None sampleIds 2 STop 0]
    insert_at_leaf [of "[First]"
      "Some (Split ''s'' Vertical (1 / 2) (Some (Leaf ''a'' (Some 1))) (Some (Leaf ''b'' None)))"
      "''a''" "Some 1" sampleIds 2 SBottom 0]
  by (simp add: sampleIds_def)

text \<open>
  Claim C10. The target id names exactly one node of the tree, a split at path \<open>p\<close>.
  Insert replaces the whole subtree by a split of ratio \<open>1 / 2\<close>, vertical for left and
  right, horizontal for top and bottom, whose children are a new leaf holding the window
  and the old subtree, the new leaf first for left and top.
\<close>

theorem insert_at_split:
  assumes "nodeAt p t = Some (Split tid ori r a b)" and "count_list (nodeIds t) tid = 1"
  shows "insertIntoLayout g w (Some tid) sd t k =
           (putAt p
              (Some (Split (''split_'' @ g (Suc k))
                 (if sd = SLeft \<or> sd = SRight then Vertical else Horizontal) (1 / 2)
                 (Some (if sd = SLeft \<or> sd = STop then Leaf (''leaf_'' @ g k) (Some w)
                        else Split tid ori r a b))
                 (Some (if sd = SLeft \<or> sd = STop then Split tid ori r a b
                        else Leaf (''leaf_'' @ g k) (Some w))))) t,
            Suc (Suc k))"
  using insert_at_node [OF assms(1) _ assms(2), of g w sd k]
  by (simp add: wrap_value)

theorem insert_at_split_witness:
  "nodeAt [First]
      (Some (Split ''r'' Horizontal (1 / 2)
         (Some (Split ''s'' Vertical (1 / 2) (Some (Leaf ''a'' (Some 1))) (Some (Leaf ''b'' None))))
         (Some (Leaf ''c'' (Some 3)))))
     = Some (Split ''s'' Vertical (1 / 2) (Some (Leaf ''a'' (Some 1))) (Some (Leaf ''b'' None)))
   \<and> count_list (nodeIds
      (Some (Split ''r'' Horizontal (1 / 2)
         (Some (Split ''s'' Vertical (1 / 2) (Some (Leaf ''a'' (Some 1))) (Some (Leaf ''b'' None))))
         (Some (Leaf ''c'' (Some 3)))))) ''s'' = 1
   \<and> insertIntoLayout sampleIds 2 (Some ''s'') SLeft
      (Some (Split ''r'' Horizontal (1 / 2)
         (Some (Split ''s'' Vertical (1 / 2) (Some (Leaf ''a'' (Some 1))) (Some (Leaf ''b'' None))))
         (Some (Leaf ''c'' (Some 3))))) 0
     = (Some (Split ''r'' Horizontal (1 / 2)
          (Some (Split ''split_aa'' Vertical (1 / 2)
             (Some (Leaf ''leaf_a'' (Some 2)))
             (Some (Split ''s'' Vertical (1 / 2) (Some (Leaf ''a'' (Some 1))) (Some (Leaf ''b'' None))))))
          (Some (Leaf ''c'' (Some 3)))), 2)"
  using
    insert_at_split [of "[First]"
      "Some (Split ''r'' Horizontal (1 / 2)
         (Some (Split ''s'' Vertical (1 / 2) (Some (Leaf ''a'' (Some 1))) (Some (Leaf ''b'' None))))
         (Some (Leaf ''c'' (Some 3))))"
      "''s''" Vertical "1 / 2" "Some (Leaf ''a'' (Some 1))" "Some (Leaf ''b'' None)"
      sampleIds 2 SLeft 0]
  by (simp add: sampleIds_def)

subsection \<open>Bounds of the children of a split\<close>

lemma mkBounds_sel [simp]:
  "b_x (mkBounds x y w h) = x" "b_y (mkBounds x y w h) = y"
  "b_width (mkBounds x y w h) = w" "b_height (mkBounds x y w h) = h"
  by (simp_all add: mkBounds_def)

lemma mkBounds_eta [simp]: "mkBounds (b_x B) (b_y B) (b_width B) (b_height B) = B"
  by (simp add: mkBounds_def)

lemma boundsCall_simps:
  "boundsCall None B m = m"
  "boundsCall (Some (Leaf i occ)) B m = m(i \<mapsto> B)"
  "boundsCall (Some (Split i ori r a b)) B m =
     boundsCall b (snd (childBounds ori r B)) (boundsCall a (fst (childBounds ori r B)) (m(i \<mapsto> B)))"
  by (cases ori; simp add: boundsCall_def childBounds_def math_floor_def Let_def)+

lemma boundsCall_frame: "i \<notin> set (nodeIds t) \<Longrightarrow> boundsCall t B m i = m i"
  by (induction t arbitrary: B m rule: leaves.induct) (simp_all add: boundsCall_simps)

lemma nodeId_mem: "nodeId n \<in> set (nodeIds (Some n))"
  by (cases n) simp_all

lemma boundsCall_root:
  "distinct (nodeIds (Some n)) \<Longrightarrow> boundsCall (Some n) B m (nodeId n) = Some B"
  by (cases n) (simp_all add: boundsCall_simps boundsCall_frame)

lemma nodeAt_ids_subset: "nodeAt p t = Some n \<Longrightarrow> set (nodeIds (Some n)) \<subseteq> set (nodeIds t)"
  by (induction p t rule: nodeAt.induct) auto

lemma floor_ratio_bounds:
  assumes "0 \<le> (n::int)" and "0 < (r::rat)" and "r < 1"
  shows "0 \<le> \<lfloor>of_int n * r\<rfloor>" and "\<lfloor>of_int n * r\<rfloor> \<le> n"
proof -
  have "0 \<le> of_int n * r" using assms by simp
  then show "0 \<le> \<lfloor>of_int n * r\<rfloor>" by simp
  have "of_int n * r \<le> of_int n" using assms by (simp add: mult_left_le)
  then show "\<lfloor>of_int n * r\<rfloor> \<le> n" by (metis floor_mono floor_of_int)
qed

lemma childBounds_nonneg:
  "nonneg B \<Longrightarrow> 0 < r \<Longrightarrow> r < 1 \<Longrightarrow>
   nonneg (fst (childBounds ori r B)) \<and> nonneg (snd (childBounds ori r B))"
  using floor_ratio_bounds [of "b_width B" r] floor_ratio_bounds [of "b_height B" r]
  by (cases ori) (simp_all add: childBounds_def nonneg_def)

lemma bounds_at_split:
  "nodeAt p t = Some (Split i ori r (Some a) (Some b)) \<Longrightarrow> distinct (nodeIds t) \<Longrightarrow>
   ratiosOpen t \<Longrightarrow> nonneg B \<Longrightarrow>
   \<exists>S. nonneg S \<and> boundsCall t B m i = Some S
     \<and> boundsCall t B m (nodeId a) = Some (fst (childBounds ori r S))
     \<and> boundsCall t B m (nodeId b) = Some (snd (childBounds ori r S))"
proof (induction p t arbitrary: B m rule: nodeAt.induct)
  case (1 t)
  then have t: "t = Some (Split i ori r (Some a) (Some b))" by simp
  have d: "distinct (nodeIds (Some a))" "distinct (nodeIds (Some b))"
    "i \<notin> set (nodeIds (Some a))" "i \<notin> set (nodeIds (Some b))"
    "set (nodeIds (Some a)) \<inter> set (nodeIds (Some b)) = {}"
    using "1.prems"(2) unfolding t by auto
  have "nodeId a \<notin> set (nodeIds (Some b))" using d(5) nodeId_mem [of a] by blast
  then have "boundsCall t B m (nodeId a) = Some (fst (childBounds ori r B))"
    unfolding t by (simp add: boundsCall_simps boundsCall_frame boundsCall_root d)
  moreover have "boundsCall t B m (nodeId b) = Some (snd (childBounds ori r B))"
    unfolding t by (simp add: boundsCall_simps boundsCall_root d)
  moreover have "boundsCall t B m i = Some B"
    unfolding t by (simp add: boundsCall_simps boundsCall_frame d)
  ultimately show ?case using "1.prems"(4) by blast
next
  case (2 p j ori' r' a' b')
  let ?S = "Split i ori r (Some a) (Some b)"
  have na: "nodeAt p a' = Some ?S" using "2.prems"(1) by simp
  have d: "distinct (nodeIds a')" "set (nodeIds a') \<inter> set (nodeIds b') = {}"
    using "2.prems"(2) by auto
  have ro: "0 < r'" "r' < 1" "ratiosOpen a'" using "2.prems"(3) by auto
  have nn: "nonneg (fst (childBounds ori' r' B))"
    using childBounds_nonneg [OF "2.prems"(4) ro(1,2)] by simp
  obtain S where S: "nonneg S"
    "boundsCall a' (fst (childBounds ori' r' B)) (m(j \<mapsto> B)) i = Some S"
    "boundsCall a' (fst (childBounds ori' r' B)) (m(j \<mapsto> B)) (nodeId a)
       = Some (fst (childBounds ori r S))"
    "boundsCall a' (fst (childBounds ori' r' B)) (m(j \<mapsto> B)) (nodeId b)
       = Some (snd (childBounds ori r S))"
    using "2.IH" [OF na d(1) ro(3) nn, of "m(j \<mapsto> B)"] by blast
  have sub: "set (nodeIds (Some ?S)) \<subseteq> set (nodeIds a')" by (rule nodeAt_ids_subset [OF na])
  have "i \<in> set (nodeIds (Some ?S))" "nodeId a \<in> set (nodeIds (Some ?S))"
    "nodeId b \<in> set (nodeIds (Some ?S))"
    using nodeId_mem [of a] nodeId_mem [of b] by auto
  then have out: "i \<notin> set (nodeIds b')" "nodeId a \<notin> set (nodeIds b')"
    "nodeId b \<notin> set (nodeIds b')"
    using sub d(2) by blast+
  show ?case using S out by (auto simp: boundsCall_simps boundsCall_frame)
next
  case (3 p j ori' r' a' b')
  let ?S = "Split i ori r (Some a) (Some b)"
  have nb: "nodeAt p b' = Some ?S" using "3.prems"(1) by simp
  have d: "distinct (nodeIds b')" using "3.prems"(2) by auto
  have ro: "0 < r'" "r' < 1" "ratiosOpen b'" using "3.prems"(3) by auto
  have nn: "nonneg (snd (childBounds ori' r' B))"
    using childBounds_nonneg [OF "3.prems"(4) ro(1,2)] by simp
  show ?case
    using "3.IH" [OF nb d ro(3) nn] by (simp add: boundsCall_simps)
qed simp_all


lemma ratiosOpen_at:
  "nodeAt p t = Some (Split i ori r a b) \<Longrightarrow> ratiosOpen t \<Longrightarrow> 0 < r \<and> r < 1"
  by (induction p t rule: nodeAt.induct) auto

lemma childBounds_partition:
  assumes "nonneg S" and "0 < r" and "r < 1"
  shows "rectPoints (fst (childBounds ori r S)) \<inter> rectPoints (snd (childBounds ori r S)) = {}"
    and "rectPoints (fst (childBounds ori r S)) \<union> rectPoints (snd (childBounds ori r S))
           = rectPoints S"
proof -
  define fw where "fw = \<lfloor>of_int (b_width S) * r\<rfloor>"
  define fh where "fh = \<lfloor>of_int (b_height S) * r\<rfloor>"
  have w: "0 \<le> fw" "fw \<le> b_width S"
    using floor_ratio_bounds [of "b_width S" r] assms unfolding fw_def nonneg_def by blast+
  have h: "0 \<le> fh" "fh \<le> b_height S"
    using floor_ratio_bounds [of "b_height S" r] assms unfolding fh_def nonneg_def by blast+
  have cv: "childBounds Vertical r S =
      (mkBounds (b_x S) (b_y S) fw (b_height S),
       mkBounds (b_x S + fw) (b_y S) (b_width S - fw) (b_height S))"
    by (simp add: childBounds_def fw_def)
  have ch: "childBounds Horizontal r S =
      (mkBounds (b_x S) (b_y S) (b_width S) fh,
       mkBounds (b_x S) (b_y S + fh) (b_width S) (b_height S - fh))"
    by (simp add: childBounds_def fh_def)
  show "rectPoints (fst (childBounds ori r S)) \<inter> rectPoints (snd (childBounds ori r S)) = {}"
    by (cases ori) (auto simp: cv ch rectPoints_def)
  show "rectPoints (fst (childBounds ori r S)) \<union> rectPoints (snd (childBounds ori r S))
           = rectPoints S"
    using w h by (cases ori) (auto simp: cv ch rectPoints_def)
qed

text \<open>
  Claim C3. In a tree with distinct node ids and ratios strictly between 0 and 1, resolved
  in an outer rectangle of non-negative width and height, every split with bounds \<open>B\<close>
  gives its first child the extent \<open>\<lfloor>extent B * ratio\<rfloor>\<close> and its second child the
  remainder, along the x axis when vertical and along the y axis when horizontal; the
  second child starts where the first ends, both keep the parent's origin and extent on
  the other axis, the two extents add up to the parent's, and the two rectangles are
  disjoint and together cover the parent's rectangle.
\<close>

theorem split_children_bounds:
  assumes "nodeAt p t = Some (Split i ori r (Some a) (Some b))"
    and "distinct (nodeIds t)"
    and "ratiosOpen t"
    and "0 \<le> width" and "0 \<le> height"
  shows "\<exists>B Ba Bb.
      computeBounds t x y width height m i = Some B
    \<and> computeBounds t x y width height m (nodeId a) = Some Ba
    \<and> computeBounds t x y width height m (nodeId b) = Some Bb
    \<and> (ori = Vertical \<longrightarrow>
          b_width Ba = \<lfloor>of_int (b_width B) * r\<rfloor> \<and> b_width Bb = b_width B - b_width Ba
        \<and> b_width Ba + b_width Bb = b_width B
        \<and> b_x Ba = b_x B \<and> b_x Bb = b_x B + b_width Ba
        \<and> b_y Ba = b_y B \<and> b_y Bb = b_y B
        \<and> b_height Ba = b_height B \<and> b_height Bb = b_height B)
    \<and> (ori = Horizontal \<longrightarrow>
          b_height Ba = \<lfloor>of_int (b_height B) * r\<rfloor> \<and> b_height Bb = b_height B - b_height Ba
        \<and> b_height Ba + b_height Bb = b_height B
        \<and> b_y Ba = b_y B \<and> b_y Bb = b_y B + b_height Ba
        \<and> b_x Ba = b_x B \<and> b_x Bb = b_x B
        \<and> b_width Ba = b_width B \<and> b_width Bb = b_width B)
    \<and> rectPoints Ba \<inter> rectPoints Bb = {}
    \<and> rectPoints Ba \<union> rectPoints Bb = rectPoints B"
proof -
  have nn: "nonneg (mkBounds x y width height)" using assms(4,5) by (simp add: nonneg_def)
  obtain S where S: "nonneg S"
    "boundsCall t (mkBounds x y width height) m i = Some S"
    "boundsCall t (mkBounds x y width height) m (nodeId a) = Some (fst (childBounds ori r S))"
    "boundsCall t (mkBounds x y width height) m (nodeId b) = Some (snd (childBounds ori r S))"
    using bounds_at_split [OF assms(1) assms(2) assms(3) nn, of m] by blast
  have r: "0 < r" "r < 1" using ratiosOpen_at [OF assms(1) assms(3)] by simp_all
  let ?Ba = "fst (childBounds ori r S)" and ?Bb = "snd (childBounds ori r S)"
  have c: "computeBounds t x y width height m i = Some S"
    "computeBounds t x y width height m (nodeId a) = Some ?Ba"
    "computeBounds t x y width height m (nodeId b) = Some ?Bb"
    using S(2,3,4) by (simp_all add: boundsCall_def)
  have v: "ori = Vertical \<longrightarrow>
          b_width ?Ba = \<lfloor>of_int (b_width S) * r\<rfloor> \<and> b_width ?Bb = b_width S - b_width ?Ba
        \<and> b_width ?Ba + b_width ?Bb = b_width S
        \<and> b_x ?Ba = b_x S \<and> b_x ?Bb = b_x S + b_width ?Ba
        \<and> b_y ?Ba = b_y S \<and> b_y ?Bb = b_y S
        \<and> b_height ?Ba = b_height S \<and> b_height ?Bb = b_height S"
    by (simp add: childBounds_def)
  have h: "ori = Horizontal \<longrightarrow>
          b_height ?Ba = \<lfloor>of_int (b_height S) * r\<rfloor> \<and> b_height ?Bb = b_height S - b_height ?Ba
        \<and> b_height ?Ba + b_height ?Bb = b_height S
        \<and> b_y ?Ba = b_y S \<and> b_y ?Bb = b_y S + b_height ?Ba
        \<and> b_x ?Ba = b_x S \<and> b_x ?Bb = b_x S
        \<and> b_width ?Ba = b_width S \<and> b_width ?Bb = b_width S"
    by (simp add: childBounds_def)
  have part: "rectPoints ?Ba \<inter> rectPoints ?Bb = {}"
    "rectPoints ?Ba \<union> rectPoints ?Bb = rectPoints S"
    using childBounds_partition [OF S(1) r] by simp_all
  show ?thesis
    apply (rule exI [of _ S], rule exI [of _ ?Ba], rule exI [of _ ?Bb])
    using c v h part by blast
qed


lemma floor_numeral_half: "\<lfloor>(numeral k :: rat) / 2\<rfloor> = numeral k div 2"
  using floor_divide_of_int_eq [of "numeral k" 2, where ?'a = rat] by simp

theorem split_children_bounds_witness:
  "nodeAt [Second] (Some (Split ''r'' Vertical (1 / 2) (Some (Leaf ''a'' (Some 1)))
        (Some (Split ''s'' Horizontal (1 / 2) (Some (Leaf ''b'' (Some 2))) (Some (Leaf ''c'' None))))))
     = Some (Split ''s'' Horizontal (1 / 2) (Some (Leaf ''b'' (Some 2))) (Some (Leaf ''c'' None)))
   \<and> distinct (nodeIds (Some (Split ''r'' Vertical (1 / 2) (Some (Leaf ''a'' (Some 1)))
        (Some (Split ''s'' Horizontal (1 / 2) (Some (Leaf ''b'' (Some 2))) (Some (Leaf ''c'' None)))))))
   \<and> ratiosOpen (Some (Split ''r'' Vertical (1 / 2) (Some (Leaf ''a'' (Some 1)))
        (Some (Split ''s'' Horizontal (1 / 2) (Some (Leaf ''b'' (Some 2))) (Some (Leaf ''c'' None))))))
   \<and> (0::int) \<le> 101 \<and> (0::int) \<le> 75
   \<and> computeBounds (Some (Split ''r'' Vertical (1 / 2) (Some (Leaf ''a'' (Some 1)))
        (Some (Split ''s'' Horizontal (1 / 2) (Some (Leaf ''b'' (Some 2))) (Some (Leaf ''c'' None)))))) 0 0 101 75 Map.empty ''s'' = Some (mkBounds 50 0 51 75)
   \<and> computeBounds (Some (Split ''r'' Vertical (1 / 2) (Some (Leaf ''a'' (Some 1)))
        (Some (Split ''s'' Horizontal (1 / 2) (Some (Leaf ''b'' (Some 2))) (Some (Leaf ''c'' None)))))) 0 0 101 75 Map.empty ''b'' = Some (mkBounds 50 0 51 37)
   \<and> computeBounds (Some (Split ''r'' Vertical (1 / 2) (Some (Leaf ''a'' (Some 1)))
        (Some (Split ''s'' Horizontal (1 / 2) (Some (Leaf ''b'' (Some 2))) (Some (Leaf ''c'' None)))))) 0 0 101 75 Map.empty ''c'' = Some (mkBounds 50 37 51 38)
   \<and> rectPoints (mkBounds 50 0 51 37) \<inter> rectPoints (mkBounds 50 37 51 38) = {}
   \<and> rectPoints (mkBounds 50 0 51 37) \<union> rectPoints (mkBounds 50 37 51 38)
       = rectPoints (mkBounds 50 0 51 75)"
proof -
  have h1: "nodeAt [Second] (Some (Split ''r'' Vertical (1 / 2) (Some (Leaf ''a'' (Some 1)))
        (Some (Split ''s'' Horizontal (1 / 2) (Some (Leaf ''b'' (Some 2))) (Some (Leaf ''c'' None))))))
     = Some (Split ''s'' Horizontal (1 / 2) (Some (Leaf ''b'' (Some 2))) (Some (Leaf ''c'' None)))"
    by simp
  have h2: "distinct (nodeIds (Some (Split ''r'' Vertical (1 / 2) (Some (Leaf ''a'' (Some 1)))
        (Some (Split ''s'' Horizontal (1 / 2) (Some (Leaf ''b'' (Some 2))) (Some (Leaf ''c'' None)))))))" by simp
  have h3: "ratiosOpen (Some (Split ''r'' Vertical (1 / 2) (Some (Leaf ''a'' (Some 1)))
        (Some (Split ''s'' Horizontal (1 / 2) (Some (Leaf ''b'' (Some 2))) (Some (Leaf ''c'' None))))))" by simp
  have c: "computeBounds (Some (Split ''r'' Vertical (1 / 2) (Some (Leaf ''a'' (Some 1)))
        (Some (Split ''s'' Horizontal (1 / 2) (Some (Leaf ''b'' (Some 2))) (Some (Leaf ''c'' None)))))) 0 0 101 75 Map.empty ''s'' = Some (mkBounds 50 0 51 75)"
    "computeBounds (Some (Split ''r'' Vertical (1 / 2) (Some (Leaf ''a'' (Some 1)))
        (Some (Split ''s'' Horizontal (1 / 2) (Some (Leaf ''b'' (Some 2))) (Some (Leaf ''c'' None)))))) 0 0 101 75 Map.empty ''b'' = Some (mkBounds 50 0 51 37)"
    "computeBounds (Some (Split ''r'' Vertical (1 / 2) (Some (Leaf ''a'' (Some 1)))
        (Some (Split ''s'' Horizontal (1 / 2) (Some (Leaf ''b'' (Some 2))) (Some (Leaf ''c'' None)))))) 0 0 101 75 Map.empty ''c'' = Some (mkBounds 50 37 51 38)"
    by (simp_all add: math_floor_def Let_def floor_numeral_half)
  obtain B Ba Bb where
    "computeBounds (Some (Split ''r'' Vertical (1 / 2) (Some (Leaf ''a'' (Some 1)))
        (Some (Split ''s'' Horizontal (1 / 2) (Some (Leaf ''b'' (Some 2))) (Some (Leaf ''c'' None)))))) 0 0 101 75 Map.empty ''s'' = Some B"
    "computeBounds (Some (Split ''r'' Vertical (1 / 2) (Some (Leaf ''a'' (Some 1)))
        (Some (Split ''s'' Horizontal (1 / 2) (Some (Leaf ''b'' (Some 2))) (Some (Leaf ''c'' None)))))) 0 0 101 75 Map.empty ''b'' = Some Ba"
    "computeBounds (Some (Split ''r'' Vertical (1 / 2) (Some (Leaf ''a'' (Some 1)))
        (Some (Split ''s'' Horizontal (1 / 2) (Some (Leaf ''b'' (Some 2))) (Some (Leaf ''c'' None)))))) 0 0 101 75 Map.empty ''c'' = Some Bb"
    "rectPoints Ba \<inter> rectPoints Bb = {}"
    "rectPoints Ba \<union> rectPoints Bb = rectPoints B"
    using split_children_bounds [OF h1 h2 h3, of 101 75 0 0 Map.empty] by auto
  then show ?thesis using h1 h2 h3 c by simp
qed

subsection \<open>Hit test on a boundary\<close>

lemma hitCall_simps:
  "hitCall None B px py = None"
  "hitCall (Some (Leaf i occ)) B px py = (if inClosed B px py then Some (Leaf i occ) else None)"
  "hitCall (Some (Split i ori r a b)) B px py =
     (if inClosed B px py then
        (if hitCall a (fst (childBounds ori r B)) px py \<noteq> None
         then hitCall a (fst (childBounds ori r B)) px py
         else hitCall b (snd (childBounds ori r B)) px py)
      else None)"
  by (cases ori; auto simp: hitCall_def inClosed_def childBounds_def math_floor_def Let_def)+

lemma hit_is_leaf:
  "hitCall t B px py = Some n \<Longrightarrow> \<exists>i occ. n = Leaf i occ \<and> (i, occ) \<in> set (leaves t)"
proof (induction t arbitrary: B rule: leaves.induct)
  case 1
  then show ?case by (simp add: hitCall_simps)
next
  case (2 i occ)
  then show ?case by (simp add: hitCall_simps split: if_splits)
next
  case (3 i ori r a b)
  show ?case
  proof (cases "hitCall a (fst (childBounds ori r B)) px py = None")
    case True
    then have "hitCall b (snd (childBounds ori r B)) px py = Some n"
      using "3.prems" by (simp add: hitCall_simps split: if_splits)
    then show ?thesis using "3.IH"(2) by fastforce
  next
    case False
    then have "hitCall a (fst (childBounds ori r B)) px py = Some n"
      using "3.prems" by (simp add: hitCall_simps split: if_splits)
    then show ?thesis using "3.IH"(1) by fastforce
  qed
qed

lemma childBounds_closed_cover:
  assumes "nonneg B" and "0 < r" and "r < 1" and "inClosed B px py"
  shows "inClosed (fst (childBounds ori r B)) px py \<or> inClosed (snd (childBounds ori r B)) px py"
proof -
  define fw where "fw = \<lfloor>of_int (b_width B) * r\<rfloor>"
  define fh where "fh = \<lfloor>of_int (b_height B) * r\<rfloor>"
  have cv: "childBounds Vertical r B =
      (mkBounds (b_x B) (b_y B) fw (b_height B),
       mkBounds (b_x B + fw) (b_y B) (b_width B - fw) (b_height B))"
    by (simp add: childBounds_def fw_def)
  have ch: "childBounds Horizontal r B =
      (mkBounds (b_x B) (b_y B) (b_width B) fh,
       mkBounds (b_x B) (b_y B + fh) (b_width B) (b_height B - fh))"
    by (simp add: childBounds_def fh_def)
  show ?thesis using assms(4) by (cases ori) (auto simp: cv ch inClosed_def)
qed

lemma hit_total:
  "strictlyBinary t \<Longrightarrow> t \<noteq> None \<Longrightarrow> ratiosOpen t \<Longrightarrow> nonneg B \<Longrightarrow> inClosed B px py \<Longrightarrow>
   hitCall t B px py \<noteq> None"
proof (induction t arbitrary: B rule: leaves.induct)
  case 1
  then show ?case by simp
next
  case (2 i occ)
  then show ?case by (simp add: hitCall_simps)
next
  case (3 i ori r a b)
  have p: "a \<noteq> None" "b \<noteq> None" "strictlyBinary a" "strictlyBinary b"
    "0 < r" "r < 1" "ratiosOpen a" "ratiosOpen b"
    using "3.prems"(1,3) by auto
  have nn: "nonneg (fst (childBounds ori r B))" "nonneg (snd (childBounds ori r B))"
    using childBounds_nonneg [OF "3.prems"(4) p(5,6), of ori] by simp_all
  from childBounds_closed_cover [OF "3.prems"(4) p(5,6) "3.prems"(5), of ori]
  show ?case
  proof
    assume "inClosed (fst (childBounds ori r B)) px py"
    then have "hitCall a (fst (childBounds ori r B)) px py \<noteq> None"
      using "3.IH"(1) [OF p(3) p(1) p(7) nn(1)] by simp
    then show ?thesis using "3.prems"(5) by (simp add: hitCall_simps)
  next
    assume "inClosed (snd (childBounds ori r B)) px py"
    then have "hitCall b (snd (childBounds ori r B)) px py \<noteq> None"
      using "3.IH"(2) [OF p(4) p(2) p(8) nn(2)] by simp
    then show ?thesis using "3.prems"(5) by (simp add: hitCall_simps)
  qed
qed

text \<open>
  Claim C4, as the code has it. The containment test is \<^verbatim>\<open>px < x || px > x + width\<close>:
  rectangles are closed on both sides, and the first child is tried first. A point of the
  split's rectangle that lies exactly on the boundary between the two children is
  therefore resolved inside the first child, to one of its leaves.
\<close>

theorem boundary_point_hits_first_child:
  assumes "strictlyBinary (Some a)" and "ratiosOpen (Some a)"
    and "0 < ratio" and "ratio < 1"
    and "0 \<le> width" and "0 \<le> height"
    and "x \<le> px" and "px \<le> x + width" and "y \<le> py" and "py \<le> y + height"
  shows "(px = x + \<lfloor>of_int width * ratio\<rfloor> \<longrightarrow>
           findDeepestNodeAtPoint (Some (Split i Vertical ratio (Some a) second))
               x y width height px py
             = findDeepestNodeAtPoint (Some a) x y \<lfloor>of_int width * ratio\<rfloor> height px py
         \<and> (\<exists>j occ. findDeepestNodeAtPoint (Some (Split i Vertical ratio (Some a) second))
               x y width height px py = Some (Leaf j occ)
               \<and> (j, occ) \<in> set (leaves (Some a))))
       \<and> (py = y + \<lfloor>of_int height * ratio\<rfloor> \<longrightarrow>
           findDeepestNodeAtPoint (Some (Split i Horizontal ratio (Some a) second))
               x y width height px py
             = findDeepestNodeAtPoint (Some a) x y width \<lfloor>of_int height * ratio\<rfloor> px py
         \<and> (\<exists>j occ. findDeepestNodeAtPoint (Some (Split i Horizontal ratio (Some a) second))
               x y width height px py = Some (Leaf j occ)
               \<and> (j, occ) \<in> set (leaves (Some a))))"
proof -
  have fw: "0 \<le> \<lfloor>of_int width * ratio\<rfloor>" and fh: "0 \<le> \<lfloor>of_int height * ratio\<rfloor>"
    using floor_ratio_bounds(1) [of width ratio] floor_ratio_bounds(1) [of height ratio]
      assms(3-6) by blast+
  have v: "findDeepestNodeAtPoint (Some (Split i Vertical ratio (Some a) second))
               x y width height px py
             = findDeepestNodeAtPoint (Some a) x y \<lfloor>of_int width * ratio\<rfloor> height px py
         \<and> (\<exists>j occ. findDeepestNodeAtPoint (Some (Split i Vertical ratio (Some a) second))
               x y width height px py = Some (Leaf j occ)
               \<and> (j, occ) \<in> set (leaves (Some a)))"
    if eq: "px = x + \<lfloor>of_int width * ratio\<rfloor>"
  proof -
    let ?B = "mkBounds x y \<lfloor>of_int width * ratio\<rfloor> height"
    have "nonneg ?B" using fw assms(6) by (simp add: nonneg_def)
    moreover have "inClosed ?B px py" using eq fw assms(9,10) by (simp add: inClosed_def)
    ultimately have "hitCall (Some a) ?B px py \<noteq> None"
      using hit_total [OF assms(1) _ assms(2)] by simp
    then obtain n where n: "hitCall (Some a) ?B px py = Some n" by auto
    obtain j occ where "n = Leaf j occ" "(j, occ) \<in> set (leaves (Some a))"
      using hit_is_leaf [OF n] by blast
    then show ?thesis
      using n assms(7-10) by (simp add: hitCall_def math_floor_def Let_def)
  qed
  have h: "findDeepestNodeAtPoint (Some (Split i Horizontal ratio (Some a) second))
               x y width height px py
             = findDeepestNodeAtPoint (Some a) x y width \<lfloor>of_int height * ratio\<rfloor> px py
         \<and> (\<exists>j occ. findDeepestNodeAtPoint (Some (Split i Horizontal ratio (Some a) second))
               x y width height px py = Some (Leaf j occ)
               \<and> (j, occ) \<in> set (leaves (Some a)))"
    if eq: "py = y + \<lfloor>of_int height * ratio\<rfloor>"
  proof -
    let ?B = "mkBounds x y width \<lfloor>of_int height * ratio\<rfloor>"
    have "nonneg ?B" using fh assms(5) by (simp add: nonneg_def)
    moreover have "inClosed ?B px py" using eq fh assms(7,8) by (simp add: inClosed_def)
    ultimately have "hitCall (Some a) ?B px py \<noteq> None"
      using hit_total [OF assms(1) _ assms(2)] by simp
    then obtain n where n: "hitCall (Some a) ?B px py = Some n" by auto
    obtain j occ where "n = Leaf j occ" "(j, occ) \<in> set (leaves (Some a))"
      using hit_is_leaf [OF n] by blast
    then show ?thesis
      using n assms(7-10) by (simp add: hitCall_def math_floor_def Let_def)
  qed
  show ?thesis using v h by blast
qed


lemma floor_half_100: "\<lfloor>(100::rat) * (1 / 2)\<rfloor> = 50" "\<lfloor>(80::rat) * (1 / 2)\<rfloor> = 40"
  by (simp_all add: floor_numeral_half)

theorem boundary_point_hits_first_child_witness:
  "strictlyBinary (Some (Leaf ''a'' (Some 1))) \<and> ratiosOpen (Some (Leaf ''a'' (Some 1)))
   \<and> (0::rat) < 1 / 2 \<and> (1 / 2 :: rat) < 1 \<and> (0::int) \<le> 100 \<and> (0::int) \<le> 80
   \<and> (0::int) \<le> 50 \<and> (50::int) \<le> 0 + 100 \<and> (0::int) \<le> 40 \<and> (40::int) \<le> 0 + 80
   \<and> (50::int) = 0 + \<lfloor>of_int 100 * (1 / 2 :: rat)\<rfloor>
   \<and> (40::int) = 0 + \<lfloor>of_int 80 * (1 / 2 :: rat)\<rfloor>
   \<and> findDeepestNodeAtPoint
        (Some (Split ''s'' Vertical (1 / 2) (Some (Leaf ''a'' (Some 1))) (Some (Leaf ''b'' (Some 2)))))
        0 0 100 80 50 40 = Some (Leaf ''a'' (Some 1))
   \<and> findDeepestNodeAtPoint
        (Some (Split ''s'' Horizontal (1 / 2) (Some (Leaf ''a'' (Some 1))) (Some (Leaf ''b'' (Some 2)))))
        0 0 100 80 50 40 = Some (Leaf ''a'' (Some 1))"
  using boundary_point_hits_first_child [of "Leaf ''a'' (Some 1)" "1 / 2" 100 80 0 50 0 40
      "''s''" "Some (Leaf ''b'' (Some 2))"]
  by (simp add: floor_half_100)

theorem boundary_point_counterexample:
  "math_floor (of_int 100 * (1 / 2)) = 50
   \<and> findDeepestNodeAtPoint
        (Some (Split ''s'' Vertical (1 / 2) (Some (Leaf ''a'' (Some 1))) (Some (Leaf ''b'' (Some 2)))))
        0 0 100 80 (0 + 50) 10 = Some (Leaf ''a'' (Some 1))
   \<and> findDeepestNodeAtPoint (Some (Leaf ''b'' (Some 2))) (0 + 50) 0 (100 - 50) 80 (0 + 50) 10
       = Some (Leaf ''b'' (Some 2))
   \<and> findDeepestNodeAtPoint
        (Some (Split ''s'' Vertical (1 / 2) (Some (Leaf ''a'' (Some 1))) (Some (Leaf ''b'' (Some 2)))))
        0 0 100 80 (0 + 50) 10
      \<noteq> findDeepestNodeAtPoint (Some (Leaf ''b'' (Some 2))) (0 + 50) 0 (100 - 50) 80 (0 + 50) 10"
  by (simp add: math_floor_def floor_half_100)

subsection \<open>Snap preview\<close>

lemma math_round_half: "math_round (of_int n / 2) = (n + 1) div 2"
proof -
  have "(of_int n :: rat) / 2 + 1 / 2 = of_int (n + 1) / of_int 2" by (simp add: add_divide_distrib)
  then show ?thesis unfolding math_round_def by (simp only: floor_divide_of_int_eq)
qed

lemma boundsCall_dom: "i \<in> set (nodeIds t) \<Longrightarrow> boundsCall t B m i \<noteq> None"
proof (induction t arbitrary: B m rule: leaves.induct)
  case 1
  then show ?case by simp
next
  case (2 j occ)
  then show ?case by (simp add: boundsCall_simps)
next
  case (3 j ori r a b)
  show ?case
  proof (cases "i \<in> set (nodeIds b)")
    case True
    then show ?thesis using "3.IH"(2) by (simp add: boundsCall_simps)
  next
    case False
    note nb = this
    show ?thesis
    proof (cases "i \<in> set (nodeIds a)")
      case True
      then show ?thesis using "3.IH"(1) nb by (simp add: boundsCall_simps boundsCall_frame)
    next
      case False
      then have "i = j" using "3.prems" nb by simp
      then show ?thesis using nb False by (simp add: boundsCall_simps boundsCall_frame)
    qed
  qed
qed

lemma leaf_id_mem: "(i, occ) \<in> set (leaves t) \<Longrightarrow> i \<in> set (nodeIds t)"
  by (induction t rule: leaves.induct) auto

lemma hit_bounds_defined:
  assumes "findDeepestNodeAtPoint rootNode 0 0 vw vh px py = Some t"
  shows "computeBounds rootNode 0 0 vw vh Map.empty (nodeId t) \<noteq> None"
proof -
  have "hitCall rootNode (mkBounds 0 0 vw vh) px py = Some t"
    using assms by (simp add: hitCall_def)
  then obtain i occ where "t = Leaf i occ" "(i, occ) \<in> set (leaves rootNode)"
    using hit_is_leaf by blast
  then have "nodeId t \<in> set (nodeIds rootNode)" using leaf_id_mem by fastforce
  then show ?thesis
    using boundsCall_dom [of "nodeId t" rootNode "mkBounds 0 0 vw vh" Map.empty]
    by (simp add: boundsCall_def)
qed

lemma candidateEdges_defined: "candidateEdges rootNode vw vh px py \<noteq> None"
  using hit_bounds_defined [of rootNode vw vh px py]
  by (auto simp: candidateEdges_def split: option.splits)

lemma hitTest_leaf:
  assumes "findDeepestNodeAtPoint rootNode 0 0 vw vh px py = Some t"
    and "computeBounds rootNode 0 0 vw vh Map.empty (nodeId t) = Some b"
  shows "hitTestForPreview rootNode vw vh px py =
     (let distLeft = px - b_x b;
          distRight = b_x b + b_width b - px;
          distTop = py - b_y b;
          distBottom = b_y b + b_height b - py;
          minD = min distLeft (min distRight (min distTop distBottom));
          hw = (b_width b + 1) div 2;
          hh = (b_height b + 1) div 2
      in if minD > SNAP_DISTANCE then Inr None
         else if minD = distLeft then
           Inr (Some (mkPreview (b_x b) (b_y b) hw (b_height b) (Some (nodeId t)) SLeft))
         else if minD = distRight then
           Inr (Some (mkPreview (b_x b + hw) (b_y b) hw (b_height b) (Some (nodeId t)) SRight))
         else if minD = distTop then
           Inr (Some (mkPreview (b_x b) (b_y b) (b_width b) hh (Some (nodeId t)) STop))
         else
           Inr (Some (mkPreview (b_x b) (b_y b + hh) (b_width b) hh (Some (nodeId t)) SBottom)))"
proof -
  have "rootNode \<noteq> None" using assms(1) by (cases rootNode) simp_all
  then show ?thesis
    unfolding hitTestForPreview_def
    by (simp only: assms Let_def math_round_half option.case if_True simp_thms)
qed

lemma hitTest_no_leaf:
  assumes "findDeepestNodeAtPoint rootNode 0 0 vw vh px py = None"
  shows "hitTestForPreview rootNode vw vh px py =
     (if px \<le> SNAP_DISTANCE then
        Inr (Some (mkPreview 0 0 ((vw + 1) div 2) vh None SLeft))
      else if px \<ge> vw - SNAP_DISTANCE then
        Inr (Some (mkPreview ((vw + 1) div 2) 0 ((vw + 1) div 2) vh None SRight))
      else if py \<le> SNAP_DISTANCE then
        Inr (Some (mkPreview 0 0 vw ((vh + 1) div 2) None STop))
      else if py \<ge> vh - SNAP_DISTANCE then
        Inr (Some (mkPreview 0 ((vh + 1) div 2) vw ((vh + 1) div 2) None SBottom))
      else Inr None)"
  unfolding hitTestForPreview_def
  by (simp only: assms Let_def math_round_half option.case if_True if_False simp_thms
      split: if_splits)

lemma hitTest_no_TypeError: "hitTestForPreview rootNode vw vh px py \<noteq> Inl e"
proof (cases "findDeepestNodeAtPoint rootNode 0 0 vw vh px py")
  case None
  then show ?thesis by (simp add: hitTest_no_leaf)
next
  case (Some t)
  then obtain b where "computeBounds rootNode 0 0 vw vh Map.empty (nodeId t) = Some b"
    using hit_bounds_defined [of rootNode vw vh px py t] by auto
  then show ?thesis using Some by (simp add: hitTest_leaf Let_def)
qed

lemma mkPreview_sel [simp]:
  "s_x (mkPreview x y w h t sd) = x" "s_y (mkPreview x y w h t sd) = y"
  "s_width (mkPreview x y w h t sd) = w" "s_height (mkPreview x y w h t sd) = h"
  "s_targetNodeId (mkPreview x y w h t sd) = t" "s_side (mkPreview x y w h t sd) = sd"
  by (simp_all add: mkPreview_def)

text \<open>
  Claim C5, as the code has it. Every branch computes the half with
  \<^verbatim>\<open>Math.round(size / 2)\<close>, for the first half and for the second alike. For an integer
  size that is \<open>(size + 1) div 2\<close>, the size halved and rounded up: the preview of a leaf
  that is hit starts at the leaf's origin (left, top) or at the origin plus that amount
  (right, bottom), has that extent on the chosen axis, and the leaf's origin and extent
  on the other axis.
\<close>

theorem preview_half_of_leaf:
  assumes "findDeepestNodeAtPoint rootNode 0 0 vw vh px py = Some t"
    and "computeBounds rootNode 0 0 vw vh Map.empty (nodeId t) = Some b"
    and "hitTestForPreview rootNode vw vh px py = Inr (Some pv)"
  shows "s_targetNodeId pv = Some (nodeId t)
       \<and> (s_side pv = SLeft \<longrightarrow>
            s_x pv = b_x b \<and> s_width pv = (b_width b + 1) div 2
          \<and> s_y pv = b_y b \<and> s_height pv = b_height b)
       \<and> (s_side pv = SRight \<longrightarrow>
            s_x pv = b_x b + (b_width b + 1) div 2 \<and> s_width pv = (b_width b + 1) div 2
          \<and> s_y pv = b_y b \<and> s_height pv = b_height b)
       \<and> (s_side pv = STop \<longrightarrow>
            s_y pv = b_y b \<and> s_height pv = (b_height b + 1) div 2
          \<and> s_x pv = b_x b \<and> s_width pv = b_width b)
       \<and> (s_side pv = SBottom \<longrightarrow>
            s_y pv = b_y b + (b_height b + 1) div 2 \<and> s_height pv = (b_height b + 1) div 2
          \<and> s_x pv = b_x b \<and> s_width pv = b_width b)"
proof -
  let ?hw = "(b_width b + 1) div 2" and ?hh = "(b_height b + 1) div 2"
  have "pv = mkPreview (b_x b) (b_y b) ?hw (b_height b) (Some (nodeId t)) SLeft
      \<or> pv = mkPreview (b_x b + ?hw) (b_y b) ?hw (b_height b) (Some (nodeId t)) SRight
      \<or> pv = mkPreview (b_x b) (b_y b) (b_width b) ?hh (Some (nodeId t)) STop
      \<or> pv = mkPreview (b_x b) (b_y b + ?hh) (b_width b) ?hh (Some (nodeId t)) SBottom"
    using assms(3) unfolding hitTest_leaf [OF assms(1) assms(2)] Let_def
    by (simp only: split: if_splits) auto
  then show ?thesis by (elim disjE) simp_all
qed


lemma sample_leaf_hit:
  "0 \<le> px \<Longrightarrow> px \<le> 101 \<Longrightarrow> 0 \<le> py \<Longrightarrow> py \<le> 75 \<Longrightarrow>
   findDeepestNodeAtPoint (Some (Leaf ''a'' (Some 1))) 0 0 101 75 px py
     = Some (Leaf ''a'' (Some 1))"
  by simp

lemma sample_leaf_bounds:
  "computeBounds (Some (Leaf ''a'' (Some 1))) 0 0 101 75 Map.empty (nodeId (Leaf ''a'' (Some 1)))
     = Some (mkBounds 0 0 101 75)"
  by simp

lemma sample_leaf_previews:
  "hitTestForPreview (Some (Leaf ''a'' (Some 1))) 101 75 10 37
     = Inr (Some (mkPreview 0 0 51 75 (Some ''a'') SLeft))"
  "hitTestForPreview (Some (Leaf ''a'' (Some 1))) 101 75 95 37
     = Inr (Some (mkPreview 51 0 51 75 (Some ''a'') SRight))"
  "hitTestForPreview (Some (Leaf ''a'' (Some 1))) 101 75 50 5
     = Inr (Some (mkPreview 0 0 101 38 (Some ''a'') STop))"
  "hitTestForPreview (Some (Leaf ''a'' (Some 1))) 101 75 50 70
     = Inr (Some (mkPreview 0 38 101 38 (Some ''a'') SBottom))"
  by (simp_all add: hitTest_leaf [OF sample_leaf_hit sample_leaf_bounds] SNAP_DISTANCE_def)

theorem preview_half_of_leaf_witness:
  "findDeepestNodeAtPoint (Some (Leaf ''a'' (Some 1))) 0 0 101 75 10 37 = Some (Leaf ''a'' (Some 1))
   \<and> computeBounds (Some (Leaf ''a'' (Some 1))) 0 0 101 75 Map.empty ''a''
       = Some (mkBounds 0 0 101 75)
   \<and> hitTestForPreview (Some (Leaf ''a'' (Some 1))) 101 75 10 37
       = Inr (Some (mkPreview 0 0 51 75 (Some ''a'') SLeft))
   \<and> s_side (mkPreview 0 0 51 75 (Some ''a'') SLeft) = SLeft
   \<and> s_width (mkPreview 0 0 51 75 (Some ''a'') SLeft) = (b_width (mkBounds 0 0 101 75) + 1) div 2
   \<and> hitTestForPreview (Some (Leaf ''a'' (Some 1))) 101 75 95 37
       = Inr (Some (mkPreview 51 0 51 75 (Some ''a'') SRight))
   \<and> s_x (mkPreview 51 0 51 75 (Some ''a'') SRight)
       = b_x (mkBounds 0 0 101 75) + (b_width (mkBounds 0 0 101 75) + 1) div 2
   \<and> hitTestForPreview (Some (Leaf ''a'' (Some 1))) 101 75 50 5
       = Inr (Some (mkPreview 0 0 101 38 (Some ''a'') STop))
   \<and> s_height (mkPreview 0 0 101 38 (Some ''a'') STop) = (b_height (mkBounds 0 0 101 75) + 1) div 2
   \<and> hitTestForPreview (Some (Leaf ''a'' (Some 1))) 101 75 50 70
       = Inr (Some (mkPreview 0 38 101 38 (Some ''a'') SBottom))
   \<and> s_y (mkPreview 0 38 101 38 (Some ''a'') SBottom)
       = b_y (mkBounds 0 0 101 75) + (b_height (mkBounds 0 0 101 75) + 1) div 2"
  using
    preview_half_of_leaf [OF sample_leaf_hit sample_leaf_bounds sample_leaf_previews(1)]
    preview_half_of_leaf [OF sample_leaf_hit sample_leaf_bounds sample_leaf_previews(2)]
    preview_half_of_leaf [OF sample_leaf_hit sample_leaf_bounds sample_leaf_previews(3)]
    preview_half_of_leaf [OF sample_leaf_hit sample_leaf_bounds sample_leaf_previews(4)]
    sample_leaf_previews
  by simp

theorem preview_half_counterexample:
  "findDeepestNodeAtPoint (Some (Leaf ''a'' (Some 1))) 0 0 101 75 10 37 = Some (Leaf ''a'' (Some 1))
   \<and> computeBounds (Some (Leaf ''a'' (Some 1))) 0 0 101 75 Map.empty ''a''
       = Some (mkBounds 0 0 101 75)
   \<and> hitTestForPreview (Some (Leaf ''a'' (Some 1))) 101 75 10 37
       = Inr (Some (mkPreview 0 0 51 75 (Some ''a'') SLeft))
   \<and> s_width (mkPreview 0 0 51 75 (Some ''a'') SLeft) \<noteq> \<lfloor>(101::rat) / 2\<rfloor>
   \<and> hitTestForPreview (Some (Leaf ''a'' (Some 1))) 101 75 95 37
       = Inr (Some (mkPreview 51 0 51 75 (Some ''a'') SRight))
   \<and> s_x (mkPreview 51 0 51 75 (Some ''a'') SRight) \<noteq> 0 + \<lfloor>(101::rat) / 2\<rfloor>
   \<and> s_x (mkPreview 51 0 51 75 (Some ''a'') SRight)
       + s_width (mkPreview 51 0 51 75 (Some ''a'') SRight) \<noteq> 0 + 101"
  using sample_leaf_previews by (simp add: floor_numeral_half)

lemma offset_eq_distance:
  "inClosed b px py \<Longrightarrow> minEdgeDistance b px py = minEdgeOffset b px py"
  by (simp add: inClosed_def minEdgeDistance_def minEdgeOffset_def)

lemma no_snap_by_offset:
  assumes "candidateEdges rootNode vw vh px py = Some b"
    and "SNAP_DISTANCE < minEdgeOffset b px py"
  shows "hitTestForPreview rootNode vw vh px py = Inr None"
proof (cases "findDeepestNodeAtPoint rootNode 0 0 vw vh px py")
  case None
  then have b: "b = mkBounds 0 0 vw vh" using assms(1) by (simp add: candidateEdges_def)
  have "SNAP_DISTANCE < px" "SNAP_DISTANCE < vw - px" "SNAP_DISTANCE < py" "SNAP_DISTANCE < vh - py"
    using assms(2) unfolding b minEdgeOffset_def by simp_all
  then show ?thesis unfolding hitTest_no_leaf [OF None] by auto
next
  case (Some t)
  then have b: "computeBounds rootNode 0 0 vw vh Map.empty (nodeId t) = Some b"
    using assms(1) by (simp add: candidateEdges_def)
  show ?thesis
    unfolding hitTest_leaf [OF Some b] Let_def
    using assms(2) by (simp only: minEdgeOffset_def if_True)
qed

text \<open>
  Claim C6, as the code has it. The candidate rectangle is the bounds of the leaf that is
  hit, or the viewport when no leaf is hit; it always exists. What the code compares with
  the threshold are the inward offsets \<open>px - left\<close>, \<open>right - px\<close>, \<open>py - top\<close>,
  \<open>bottom - py\<close>: when the least of them exceeds 50 the result is none. For a point
  inside the candidate rectangle these offsets are its distances to the four edges. For a
  point outside the viewport they are not: an offset is negative there, and the code
  proposes a snap however far away the point is.
\<close>

theorem no_snap_beyond_threshold:
  "\<exists>b. candidateEdges rootNode vw vh px py = Some b
     \<and> (SNAP_DISTANCE < minEdgeOffset b px py
          \<longrightarrow> hitTestForPreview rootNode vw vh px py = Inr None)
     \<and> (inClosed b px py \<and> SNAP_DISTANCE < minEdgeDistance b px py
          \<longrightarrow> hitTestForPreview rootNode vw vh px py = Inr None)"
proof -
  obtain b where b: "candidateEdges rootNode vw vh px py = Some b"
    using candidateEdges_defined [of rootNode vw vh px py] by auto
  show ?thesis
    using b no_snap_by_offset [OF b] offset_eq_distance [of b px py] by auto
qed

lemma sample_candidates:
  "candidateEdges None 800 600 px py = Some (mkBounds 0 0 800 600)"
  "candidateEdges (Some (Leaf ''a'' (Some 1))) 800 600 400 300 = Some (mkBounds 0 0 800 600)"
  "candidateEdges (Some (Leaf ''a'' (Some 1))) 800 600 (- 100) 300 = Some (mkBounds 0 0 800 600)"
  by (simp_all add: candidateEdges_def)

theorem no_snap_beyond_threshold_witness:
  "candidateEdges None 800 600 400 300 = Some (mkBounds 0 0 800 600)
   \<and> SNAP_DISTANCE < minEdgeOffset (mkBounds 0 0 800 600) 400 300
   \<and> inClosed (mkBounds 0 0 800 600) 400 300
   \<and> SNAP_DISTANCE < minEdgeDistance (mkBounds 0 0 800 600) 400 300
   \<and> hitTestForPreview None 800 600 400 300 = Inr None
   \<and> candidateEdges (Some (Leaf ''a'' (Some 1))) 800 600 400 300 = Some (mkBounds 0 0 800 600)
   \<and> hitTestForPreview (Some (Leaf ''a'' (Some 1))) 800 600 400 300 = Inr None"
  using no_snap_beyond_threshold [of None 800 600 400 300]
    no_snap_beyond_threshold [of "Some (Leaf ''a'' (Some 1))" 800 600 400 300]
  by (simp add: sample_candidates SNAP_DISTANCE_def minEdgeOffset_def minEdgeDistance_def
      inClosed_def)

theorem no_snap_beyond_threshold_counterexample:
  "candidateEdges None 800 600 (- 100) 300 = Some (mkBounds 0 0 800 600)
   \<and> minEdgeDistance (mkBounds 0 0 800 600) (- 100) 300 = 100
   \<and> SNAP_DISTANCE < minEdgeDistance (mkBounds 0 0 800 600) (- 100) 300
   \<and> hitTestForPreview None 800 600 (- 100) 300
       = Inr (Some (mkPreview 0 0 400 600 None SLeft))
   \<and> hitTestForPreview None 800 600 (- 100) 300 \<noteq> Inr None
   \<and> findDeepestNodeAtPoint (Some (Leaf ''a'' (Some 1))) 0 0 800 600 (- 100) 300 = None
   \<and> candidateEdges (Some (Leaf ''a'' (Some 1))) 800 600 (- 100) 300
       = Some (mkBounds 0 0 800 600)
   \<and> hitTestForPreview (Some (Leaf ''a'' (Some 1))) 800 600 (- 100) 300
       = Inr (Some (mkPreview 0 0 400 600 None SLeft))
   \<and> hitTestForPreview (Some (Leaf ''a'' (Some 1))) 800 600 (- 100) 300 \<noteq> Inr None"
  by (simp add: sample_candidates SNAP_DISTANCE_def minEdgeDistance_def hitTest_no_leaf)

end
